theory Spec2Isabelle
  imports Complex_Main "HOL-Library.Sublist"
begin

section \<open>JavaScript string primitives used by the bot\<close>

text \<open>
  Strings are \<^typ>\<open>string\<close>. The three primitives below are the ones \<^verbatim>\<open>bot.js\<close> and
  \<^verbatim>\<open>helper.js\<close> use on URLs: \<^verbatim>\<open>String.prototype.includes\<close>,
  \<^verbatim>\<open>String.prototype.split\<close> with a string separator, and \<^verbatim>\<open>replace\<close> with a global
  regular expression that matches one literal.
\<close>

text \<open>\<^verbatim>\<open>s.includes(pat)\<close>: some suffix of \<open>s\<close> starts with \<open>pat\<close>.\<close>

fun str_includes :: "string \<Rightarrow> string \<Rightarrow> bool" where
  "str_includes [] pat = (pat = [])"
| "str_includes (c # cs) pat = (prefix pat (c # cs) \<or> str_includes cs pat)"

text \<open>
  \<^verbatim>\<open>s.split(sep)\<close>: the pieces between the leftmost non-overlapping occurrences of
  \<open>sep\<close>. \<open>acc\<close> holds the current piece, reversed. With the empty separator
  JavaScript returns the characters one by one.
\<close>

function splitAcc :: "string \<Rightarrow> string \<Rightarrow> string \<Rightarrow> string list" where
  "splitAcc sep acc [] = [rev acc]"
| "splitAcc sep acc (c # cs) =
     (if sep \<noteq> [] \<and> prefix sep (c # cs)
      then rev acc # splitAcc sep [] (drop (length sep - 1) cs)
      else splitAcc sep (c # acc) cs)"
  by pat_completeness auto
termination
  by (relation "measure (\<lambda>(sep, acc, s). length s)") auto

definition str_split :: "string \<Rightarrow> string \<Rightarrow> string list" where
  "str_split s sep = (if sep = [] then map (\<lambda>c. [c]) s else splitAcc sep [] s)"

text \<open>\<^verbatim>\<open>xs[i]\<close> on an array: \<^verbatim>\<open>undefined\<close> (here \<open>None\<close>) out of range.\<close>

fun nth_opt :: "'a list \<Rightarrow> nat \<Rightarrow> 'a option" where
  "nth_opt [] i = None"
| "nth_opt (x # xs) 0 = Some x"
| "nth_opt (x # xs) (Suc i) = nth_opt xs i"

text \<open>
  \<^verbatim>\<open>s.replace(/lit/g, rep)\<close> for a regular expression that matches exactly the literal
  \<open>lit\<close>: every leftmost non-overlapping occurrence is replaced.
\<close>

function replaceAll :: "string \<Rightarrow> string \<Rightarrow> string \<Rightarrow> string" where
  "replaceAll lit rep [] = []"
| "replaceAll lit rep (c # cs) =
     (if lit \<noteq> [] \<and> prefix lit (c # cs)
      then rep @ replaceAll lit rep (drop (length lit - 1) cs)
      else c # replaceAll lit rep cs)"
  by pat_completeness auto
termination
  by (relation "measure (\<lambda>(lit, rep, s). length s)") auto

section \<open>Content identifiers\<close>

text \<open>
  \<^verbatim>\<open>url.split('/status/')[1]?.split('?')[0]\<close>, the expression \<^verbatim>\<open>bot.js\<close> uses in
  \<^verbatim>\<open>likeTweetById\<close> (line 246) and in \<^verbatim>\<open>processUrl\<close> (lines 359 and 393).
  \<open>None\<close> is \<^verbatim>\<open>undefined\<close>: the URL has no \<^verbatim>\<open>/status/\<close> in it.
\<close>

definition statusIdOf :: "string \<Rightarrow> string option" where
  "statusIdOf url =
     (case nth_opt (str_split url ''/status/'') 1 of
        None \<Rightarrow> None
      | Some rest \<Rightarrow> nth_opt (str_split rest ''?'') 0)"

text \<open>
  \<^verbatim>\<open>href.match(/\/status\/(\d+)/)\<close> of \<^verbatim>\<open>findTweetId\<close> in \<^verbatim>\<open>helper.js\<close>: the first
  position where \<^verbatim>\<open>/status/\<close> is followed by a digit; the captured group is the longest
  run of digits there.
\<close>

definition isDigit :: "char \<Rightarrow> bool" where
  "isDigit c = (c \<in> set ''0123456789'')"

fun matchStatusDigits :: "string \<Rightarrow> string option" where
  "matchStatusDigits [] = None"
| "matchStatusDigits (c # cs) =
     (if prefix ''/status/'' (c # cs) \<and> takeWhile isDigit (drop 8 (c # cs)) \<noteq> []
      then Some (takeWhile isDigit (drop 8 (c # cs)))
      else matchStatusDigits cs)"

text \<open>
  \<^verbatim>\<open>findTweetId(tweetElement)\<close>. The element is given by the \<^verbatim>\<open>href\<close> attributes of
  its anchors that contain \<^verbatim>\<open>/status/\<close>, in document order (\<open>own\<close>), and those of the
  closest enclosing tweet container, or of the element itself when there is none
  (\<open>closest\<close>). The first anchor is tried alone, then every anchor of the container.
\<close>

fun firstMatch :: "string list \<Rightarrow> string option" where
  "firstMatch [] = None"
| "firstMatch (h # hs) =
     (case matchStatusDigits h of Some d \<Rightarrow> Some d | None \<Rightarrow> firstMatch hs)"

definition findTweetId :: "string list \<Rightarrow> string list \<Rightarrow> string option" where
  "findTweetId own closest =
     (case (case own of [] \<Rightarrow> None | h # _ \<Rightarrow> matchStatusDigits h) of
        Some d \<Rightarrow> Some d
      | None \<Rightarrow> firstMatch closest)"

section \<open>Ledger store\<close>

text \<open>
  The ledger of \<^verbatim>\<open>processed.json\<close>:
  \<^verbatim>\<open>{ liked: {id: true, ...}, dayCount: number, dayStart: "YYYY-MM-DD" }\<close>.
  \<open>dayCount\<close> counts likes, so it is a natural number.
\<close>

record ledger =
  liked :: "string \<rightharpoonup> bool"
  dayCount :: nat
  dayStart :: string

definition zeroLedger :: ledger where
  "zeroLedger = \<lparr>liked = Map.empty, dayCount = 0, dayStart = []\<rparr>"

text \<open>
  \<^verbatim>\<open>new Date().toISOString().split('T')[0]\<close>. The clock is the environment: \<open>now\<close> is
  the ISO timestamp it returns. \<^verbatim>\<open>split\<close> never returns the empty array, so the
  \<open>None\<close> branch is not reached.
\<close>

definition todayOf :: "string \<Rightarrow> string" where
  "todayOf now = (case nth_opt (str_split now ''T'') 0 of Some d \<Rightarrow> d | None \<Rightarrow> [])"

text \<open>
  \<^verbatim>\<open>loadProcessed()\<close>. \<open>file\<close> is what the \<^verbatim>\<open>try\<close> block leaves in \<^verbatim>\<open>processed\<close>:
  \<open>Some data\<close> when the file exists and \<^verbatim>\<open>readJson\<close> returned \<open>data\<close>, \<open>None\<close> when the
  path does not exist or reading threw (the \<^verbatim>\<open>catch\<close> only logs a warning), in which
  case the initial zero-valued object stays. Log lines are not part of the result.
\<close>

definition loadProcessed :: "ledger option \<Rightarrow> string \<Rightarrow> ledger" where
  "loadProcessed file now =
     (let processed = (case file of None \<Rightarrow> zeroLedger | Some data \<Rightarrow> data);
          today = todayOf now
      in if dayStart processed \<noteq> today
         then processed\<lparr>dayCount := 0, dayStart := today\<rparr>
         else processed)"

section \<open>Backoff\<close>

text \<open>
  \<^verbatim>\<open>randomBetween(min, max) = Math.floor(Math.random() * (max - min + 1)) + min\<close>.
  \<open>rnd\<close> is the value \<^verbatim>\<open>Math.random()\<close> returns, a number in \<open>[0, 1)\<close>. Numbers are
  modelled as reals: every product below is an integer far inside the range where
  doubles are exact, apart from the one product with \<open>rnd\<close>.
\<close>

definition randomBetween :: "real \<Rightarrow> real \<Rightarrow> real \<Rightarrow> real" where
  "randomBetween mn mx rnd = of_int \<lfloor>rnd * (mx - mn + 1)\<rfloor> + mn"

text \<open>\<^verbatim>\<open>calculateBackoff(attempt)\<close> of \<^verbatim>\<open>helper.js\<close>, with the random draw as argument.\<close>

definition calculateBackoff :: "nat \<Rightarrow> real \<Rightarrow> real" where
  "calculateBackoff attempt rnd =
     (let baseDelay = 1000;
          maxDelay = 60000;
          exponentialDelay = min (baseDelay * 2 ^ attempt) maxDelay;
          jitter = randomBetween 0 (exponentialDelay * 0.3) rnd
      in exponentialDelay + jitter)"

section \<open>Navigation controller\<close>

text \<open>
  A thrown JavaScript \<^verbatim>\<open>Error\<close> object, by its message. The browser API and the bot
  throw nothing else, and every \<^verbatim>\<open>catch\<close> of the bot reads \<^verbatim>\<open>error.message\<close>.
\<close>

datatype error = Error string

text \<open>
  What \<^verbatim>\<open>robustGoto\<close> does to the outside, in order: a page load (\<^verbatim>\<open>page.goto\<close> followed
  by \<^verbatim>\<open>page.waitForSelector\<close>) of a URL, and a backoff sleep computed by
  \<^verbatim>\<open>calculateBackoff(attempt)\<close>.
\<close>

datatype nav_event = Goto string | Backoff nat

text \<open>
  The browser is the environment: \<open>load k url\<close> is the outcome of the \<open>k\<close>-th page load
  of one \<^verbatim>\<open>robustGoto\<close> call (counted from 0) when it loads \<open>url\<close>: \<open>None\<close> when
  \<^verbatim>\<open>goto\<close> and \<^verbatim>\<open>waitForSelector\<close> both resolve, \<open>Some e\<close> when one of them throws the
  error \<open>e\<close>.
\<close>

type_synonym loader = "nat \<Rightarrow> string \<Rightarrow> error option"

text \<open>
  The \<^verbatim>\<open>for (let attempt = 0; attempt < maxRetries; attempt++)\<close> loop of lines 91-115.
  It returns \<open>Inr events\<close> when an attempt succeeded (\<^verbatim>\<open>return true\<close>) and
  \<open>Inl (lastError, events)\<close> when the loop ran out; \<open>lastError\<close> is \<open>None\<close> while the
  variable holds \<^verbatim>\<open>null\<close>.
\<close>

function primaryLoop ::
  "loader \<Rightarrow> string \<Rightarrow> nat \<Rightarrow> nat \<Rightarrow> error option \<Rightarrow> nav_event list
     \<Rightarrow> (error option \<times> nav_event list) + nav_event list" where
  "primaryLoop load url maxRetries attempt lastError events =
     (if attempt < maxRetries then
        (case load attempt url of
           None \<Rightarrow> Inr (events @ [Goto url])
         | Some e \<Rightarrow>
             primaryLoop load url maxRetries (Suc attempt) (Some e)
               (events @ [Goto url] @ (if attempt < maxRetries - 1 then [Backoff attempt] else [])))
      else Inl (lastError, events))"
  by pat_completeness auto
termination
  by (relation "measure (\<lambda>(load, url, maxRetries, attempt, lastError, events). maxRetries - attempt)")
    auto

text \<open>
  \<^verbatim>\<open>robustGoto(page, url, processed)\<close>: the outcome and the events. \<open>Inr True\<close> is
  \<^verbatim>\<open>return true\<close>; \<open>Inl v\<close> is \<^verbatim>\<open>throw v\<close>, where \<open>v\<close> is \<open>Some e\<close> for an error and \<open>None\<close>
  for \<^verbatim>\<open>null\<close>, the value \<^verbatim>\<open>lastError\<close> starts with. The fallback load is the load
  after the \<open>maxRetries\<close> primary ones. \<^verbatim>\<open>throw lastError || error\<close> throws \<open>lastError\<close>
  unless it is \<^verbatim>\<open>null\<close>.
\<close>

definition robustGoto :: "loader \<Rightarrow> string \<Rightarrow> (error option + bool) \<times> nav_event list" where
  "robustGoto load url =
     (let maxRetries = 2 in
      case primaryLoop load url maxRetries 0 None [] of
        Inr events \<Rightarrow> (Inr True, events)
      | Inl (lastError, events) \<Rightarrow>
          if str_includes url ''x.com'' then
            (let twitterUrl = replaceAll ''x.com'' ''twitter.com'' url in
             case load maxRetries twitterUrl of
               None \<Rightarrow> (Inr True, events @ [Goto twitterUrl])
             | Some error \<Rightarrow>
                 (Inl (case lastError of Some e \<Rightarrow> Some e | None \<Rightarrow> Some error),
                  events @ [Goto twitterUrl]))
          else (Inl lastError, events))"

text \<open>
  The specification asks for the same path on the alternate domain. For a target
  \<open>scheme @ ''x.com'' @ rest\<close> that URL is \<open>scheme @ ''twitter.com'' @ rest\<close>.
\<close>

definition alternateDomainUrl :: "string \<Rightarrow> string \<Rightarrow> string" where
  "alternateDomainUrl scheme rest = scheme @ ''twitter.com'' @ rest"

section \<open>Action executor\<close>

text \<open>
  The page as \<^verbatim>\<open>likeTweetById\<close> sees it. \<open>articles\<close> are the \<^verbatim>\<open>article\<close> elements in
  document order. Of an article the function reads the \<^verbatim>\<open>href\<close> attributes of the
  anchors inside it, whether an element with test id \<^verbatim>\<open>unlike\<close> inside it is visible,
  and, when it clicks, whether \<^verbatim>\<open>likeBtn.click({ timeout: 5000 })\<close> resolves (\<open>None\<close>) or
  throws.
\<close>

record article =
  hrefs :: "string list"
  unlikeVisible :: bool
  clickError :: "error option"

text \<open>
  The two selectors are built by splicing a string, unescaped, between double quotes:
  \<^verbatim>\<open>article:has(a[href="${statusUrl}"])\<close> and
  \<^verbatim>\<open>article:has(a[href*="/status/${statusId}"])\<close>. A string without the characters
  that are special inside a quoted CSS string (the double quote, the backslash, a line
  feed, form feed or carriage return, and NUL) is read as it stands.
\<close>

definition cssSpecial :: "char \<Rightarrow> bool" where
  "cssSpecial c \<longleftrightarrow> c \<in> set [CHR 0x22, CHR 0x5C, CHR 0x0A, CHR 0x0C, CHR 0x0D, CHR 0x00]"

definition cssPlain :: "string \<Rightarrow> bool" where
  "cssPlain s \<longleftrightarrow> list_all (\<lambda>c. \<not> cssSpecial c) s"

text \<open>
  With one of those characters in the spliced string the selector is another one, or
  none at all: a double quote ends the CSS string early, a backslash starts an escape.
  What the selector engine then answers is not modelled but taken from the page:
  \<open>engine l v\<close> is what counting the locator \<open>l\<close> built from \<open>v\<close> gives, a thrown error
  (the selector does not parse) or the articles it matches.
\<close>

datatype locator = HrefEquals | HrefContains

record dom =
  articles :: "article list"
  engine :: "locator \<Rightarrow> string \<Rightarrow> error + article list"

text \<open>
  \<^verbatim>\<open>page.locator(`article:has(a[href="${statusUrl}"])`)\<close>, counted: the matching
  articles, or the error \<^verbatim>\<open>count()\<close> throws. The page is open: a selector that
  parses is counted without an error.
\<close>

definition tweetLocator :: "dom \<Rightarrow> string \<Rightarrow> error + article list" where
  "tweetLocator d statusUrl =
     (if cssPlain statusUrl then Inr (filter (\<lambda>a. statusUrl \<in> set (hrefs a)) (articles d))
      else engine d HrefEquals statusUrl)"

text \<open>\<^verbatim>\<open>page.locator(`article:has(a[href*="/status/${statusId}"])`)\<close>, counted.\<close>

definition fallbackLocator :: "dom \<Rightarrow> string \<Rightarrow> error + article list" where
  "fallbackLocator d statusId =
     (if cssPlain statusId
      then Inr (filter (\<lambda>a. list_ex (\<lambda>h. str_includes h (''/status/'' @ statusId)) (hrefs a))
                  (articles d))
      else engine d HrefContains statusId)"

text \<open>
  Truthiness of \<^verbatim>\<open>statusId\<close>: \<^verbatim>\<open>undefined\<close> and the empty string are falsy.
\<close>

fun truthy :: "string option \<Rightarrow> bool" where
  "truthy None = False"
| "truthy (Some s) = (s \<noteq> [])"

text \<open>
  Lines 243-252 (and again 260-261): the exact locator when it counts an element, else
  the fallback locator when \<^verbatim>\<open>statusId\<close> is truthy, else \<^verbatim>\<open>null\<close>. \<open>Inr None\<close>: no target
  (\<^verbatim>\<open>null\<close>, or the chosen locator counts no element). \<open>Inl e\<close>: a \<^verbatim>\<open>count()\<close> threw
  \<open>e\<close>.
\<close>

definition findTarget :: "dom \<Rightarrow> string \<Rightarrow> error + article option" where
  "findTarget d statusUrl =
     (let tweet = tweetLocator d statusUrl;
          statusId = statusIdOf statusUrl;
          fallback = (case statusId of
                        None \<Rightarrow> None
                      | Some sid \<Rightarrow> if truthy statusId then Some (fallbackLocator d sid) else None)
      in case tweet of
           Inl e \<Rightarrow> Inl e
         | Inr (a # _) \<Rightarrow> Inr (Some a)
         | Inr [] \<Rightarrow> (case fallback of
                        None \<Rightarrow> Inr None
                      | Some (Inl e) \<Rightarrow> Inl e
                      | Some (Inr []) \<Rightarrow> Inr None
                      | Some (Inr (a # _)) \<Rightarrow> Inr (Some a)))"

text \<open>
  The three result objects \<^verbatim>\<open>likeTweetById\<close> builds:
  \<^verbatim>\<open>{ ok: false, reason }\<close>, \<^verbatim>\<open>{ ok: true, already: true }\<close> and \<^verbatim>\<open>{ ok: true }\<close>,
  with the fields the caller reads.
\<close>

datatype like_result = Failed string | Already | Liked

fun ok :: "like_result \<Rightarrow> bool" where
  "ok (Failed r) = False"
| "ok Already = True"
| "ok Liked = True"

fun already :: "like_result \<Rightarrow> bool" where
  "already Already = True"
| "already _ = False"

fun reason :: "like_result \<Rightarrow> string option" where
  "reason (Failed r) = Some r"
| "reason _ = None"

text \<open>What \<^verbatim>\<open>likeTweetById\<close> does to the page, in order.\<close>

datatype interaction =
  ScrollIntoView | Hover | WaitLikeVisible | TrialClick | Click | WaitUnlike | Pause

text \<open>
  The retry loop of lines 257-307. The page changes under the bot (the list is
  virtualised), so each lookup has its own snapshot: \<open>view 0\<close> is the page at the first
  lookup (line 249) and \<open>view (Suc retry)\<close> the page at the re-query of that retry.
  Inside the \<^verbatim>\<open>try\<close> two things can throw: a \<^verbatim>\<open>count()\<close> of the re-query and the real
  click; every other call swallows its errors (\<^verbatim>\<open>.catch(() => {})\<close>). The \<^verbatim>\<open>catch\<close>
  pauses and goes on to the next retry, and rethrows after the third.
\<close>

function retryLoop ::
  "(nat \<Rightarrow> dom) \<Rightarrow> string \<Rightarrow> nat \<Rightarrow> interaction list
     \<Rightarrow> (error + like_result) \<times> interaction list" where
  "retryLoop view statusUrl retry acts =
     (if retry < 3 then
        (case findTarget (view (Suc retry)) statusUrl of
           Inl e \<Rightarrow>
             if retry < 2 then retryLoop view statusUrl (Suc retry) (acts @ [Pause])
             else (Inl e, acts)
         | Inr None \<Rightarrow> (Inr (Failed ''tweet-not-found''), acts)
         | Inr (Some freshTarget) \<Rightarrow>
             if unlikeVisible freshTarget then (Inr Already, acts)
             else
               (let acts' = acts @ [ScrollIntoView, Hover, WaitLikeVisible, TrialClick, Click]
                in case clickError freshTarget of
                     None \<Rightarrow> (Inr Liked, acts' @ [WaitUnlike])
                   | Some e \<Rightarrow>
                       if retry < 2 then retryLoop view statusUrl (Suc retry) (acts' @ [Pause])
                       else (Inl e, acts')))
      else (Inr (Failed ''click-failed''), acts))"
  by pat_completeness auto
termination
  by (relation "measure (\<lambda>(view, statusUrl, retry, acts). 3 - retry)") auto

text \<open>
  \<^verbatim>\<open>likeTweetById(page, statusUrl)\<close>: the result or the thrown error, and the
  interactions. The first lookup stands before the \<^verbatim>\<open>try\<close>: an error of its
  \<^verbatim>\<open>count()\<close> leaves the function at once.
\<close>

definition likeTweetById ::
  "(nat \<Rightarrow> dom) \<Rightarrow> string \<Rightarrow> (error + like_result) \<times> interaction list" where
  "likeTweetById view statusUrl =
     (case findTarget (view 0) statusUrl of
        Inl e \<Rightarrow> (Inl e, [])
      | Inr None \<Rightarrow> (Inr (Failed ''tweet-not-found''), [])
      | Inr (Some target) \<Rightarrow> retryLoop view statusUrl 0 [])"

section \<open>Content discovery\<close>

text \<open>The two entries of \<^verbatim>\<open>tweetSelectors\<close>, in order.\<close>

datatype selector = TweetTestId | ArticleTag

definition tweetSelectors :: "selector list" where
  "tweetSelectors = [TweetTestId, ArticleTag]"

text \<open>
  \<^verbatim>\<open>extractStatusUrlFn(element)\<close> of lines 149-184. The element is given by the
  \<^verbatim>\<open>href\<close> properties of the anchors inside it that match
  \<^verbatim>\<open>a[href*="/status/"]\<close>, in document order (\<open>own\<close>), and by those of the closest
  enclosing tweet container, or of the element itself when there is none (\<open>closest\<close>).
  \<open>None\<close> is \<^verbatim>\<open>null\<close>.
\<close>

definition stripQuery :: "string \<Rightarrow> string" where
  "stripQuery href = (case nth_opt (str_split href ''?'') 0 of Some s \<Rightarrow> s | None \<Rightarrow> [])"

definition statusUrlOfHref :: "string \<Rightarrow> string option" where
  "statusUrlOfHref href =
     (if href \<noteq> [] \<and> str_includes href ''/status/''
      then (if prefix ''/'' href then Some (''https://x.com'' @ stripQuery href)
            else Some (stripQuery href))
      else None)"

fun firstStatusUrl :: "string list \<Rightarrow> string option" where
  "firstStatusUrl [] = None"
| "firstStatusUrl (href # links) =
     (case statusUrlOfHref href of Some u \<Rightarrow> Some u | None \<Rightarrow> firstStatusUrl links)"

definition extractStatusUrlFn :: "string list \<Rightarrow> string list \<Rightarrow> string option" where
  "extractStatusUrlFn own closest =
     (case (case own of [] \<Rightarrow> None | href # _ \<Rightarrow> statusUrlOfHref href) of
        Some u \<Rightarrow> Some u
      | None \<Rightarrow> firstStatusUrl closest)"

text \<open>
  One iteration of the scroll loop as the page answers it. \<open>Frame found height\<close>: for
  each selector, \<open>found\<close> gives what \<^verbatim>\<open>page.evaluate(extractStatusUrlFn, element)\<close>
  returned for each element of \<^verbatim>\<open>page.$$(selector)\<close>, \<open>None\<close> for \<^verbatim>\<open>null\<close> or a thrown
  evaluation, and \<open>[]\<close> when the query itself threw; \<open>height\<close> is
  \<^verbatim>\<open>document.body.scrollHeight\<close> after the scroll. \<open>Broken e\<close>: scrolling or measuring
  threw \<open>e\<close>, which no \<^verbatim>\<open>try\<close> inside \<^verbatim>\<open>collectTweetIds\<close> catches.
\<close>

datatype frame = Frame "selector \<Rightarrow> string option list" nat | Broken error

text \<open>The loop variables of \<^verbatim>\<open>collectTweetIds\<close>; the \<^verbatim>\<open>Set\<close> keeps insertion order.\<close>

record scan =
  tweetUrlSet :: "string list"
  lastHeight :: nat
  noChangeCount :: nat

definition MAX_NO_CHANGE :: nat where
  "MAX_NO_CHANGE = 3"

text \<open>\<^verbatim>\<open>set.add(x)\<close> on an insertion-ordered \<^verbatim>\<open>Set\<close>.\<close>

definition setAdd :: "string \<Rightarrow> string list \<Rightarrow> string list" where
  "setAdd x xs = (if x \<in> set xs then xs else xs @ [x])"

text \<open>
  The inner \<^verbatim>\<open>for (const element of elements)\<close> loop: it breaks once the set holds
  \<open>maxScan\<close> URLs and adds every truthy extracted URL.
\<close>

fun scanElements :: "nat \<Rightarrow> string list \<Rightarrow> string option list \<Rightarrow> string list" where
  "scanElements maxScan urls [] = urls"
| "scanElements maxScan urls (statusUrl # elements) =
     (if length urls \<ge> maxScan then urls
      else scanElements maxScan
             (case statusUrl of
                None \<Rightarrow> urls
              | Some u \<Rightarrow> if truthy statusUrl then setAdd u urls else urls)
             elements)"

text \<open>The \<^verbatim>\<open>for (const selector of tweetSelectors)\<close> loop.\<close>

fun scanSelectors ::
  "nat \<Rightarrow> (selector \<Rightarrow> string option list) \<Rightarrow> string list \<Rightarrow> selector list \<Rightarrow> string list" where
  "scanSelectors maxScan found urls [] = urls"
| "scanSelectors maxScan found urls (s # ss) =
     scanSelectors maxScan found (scanElements maxScan urls (found s)) ss"

text \<open>The body of the \<^verbatim>\<open>while\<close> loop on a frame that does not throw (lines 189-230).\<close>

definition scanStep :: "nat \<Rightarrow> (selector \<Rightarrow> string option list) \<Rightarrow> nat \<Rightarrow> scan \<Rightarrow> scan" where
  "scanStep maxScan found currentHeight s =
     (let urls = scanSelectors maxScan found (tweetUrlSet s) tweetSelectors
      in if currentHeight = lastHeight s
         then s\<lparr>tweetUrlSet := urls, noChangeCount := noChangeCount s + 1\<rparr>
         else s\<lparr>tweetUrlSet := urls, noChangeCount := 0, lastHeight := currentHeight\<rparr>)"

text \<open>
  The \<^verbatim>\<open>while (tweetUrls.size < maxScan && noChangeCount < MAX_NO_CHANGE)\<close> loop over
  the frames the page supplies. The loop may run for ever on a page that keeps
  growing without new links: \<open>None\<close> says the frames given ran out before the loop
  stopped. \<open>Some (r, n)\<close> is the outcome after \<open>n\<close> iterations.
\<close>

fun collectLoop :: "nat \<Rightarrow> scan \<Rightarrow> nat \<Rightarrow> frame list \<Rightarrow> ((error + scan) \<times> nat) option" where
  "collectLoop maxScan s n frames =
     (if length (tweetUrlSet s) < maxScan \<and> noChangeCount s < MAX_NO_CHANGE then
        (case frames of
           [] \<Rightarrow> None
         | Broken e # rest \<Rightarrow> Some (Inl e, n)
         | Frame found h # rest \<Rightarrow> collectLoop maxScan (scanStep maxScan found h s) (Suc n) rest)
      else Some (Inr s, n))"

definition initialScan :: scan where
  "initialScan = \<lparr>tweetUrlSet = [], lastHeight = 0, noChangeCount = 0\<rparr>"

text \<open>\<^verbatim>\<open>collectTweetIds(page, maxScan)\<close>: \<^verbatim>\<open>Array.from(tweetUrls)\<close> or the thrown error.\<close>

definition collectTweetIds :: "nat \<Rightarrow> frame list \<Rightarrow> (error + string list) option" where
  "collectTweetIds maxScan frames =
     (case collectLoop maxScan initialScan 0 frames of
        None \<Rightarrow> None
      | Some (Inl e, n) \<Rightarrow> Some (Inl e)
      | Some (Inr s, n) \<Rightarrow> Some (Inr (tweetUrlSet s)))"

text \<open>
  The height the loop holds in \<^verbatim>\<open>lastHeight\<close> after the frames \<open>fs\<close>, when it held \<open>h\<close>
  before them: the height of the last frame measured.
\<close>

fun lastMeasured :: "nat \<Rightarrow> frame list \<Rightarrow> nat" where
  "lastMeasured h [] = h"
| "lastMeasured h (Frame found h' # fs) = lastMeasured h' fs"
| "lastMeasured h (Broken e # fs) = lastMeasured h fs"

text \<open>A scan that ends on three steps without growth, with two URLs of a ceiling of five.\<close>

definition quietFrames :: "frame list" where
  "quietFrames =
     [Frame (\<lambda>s. [Some ''https://x.com/nasa/status/1'', None]) 900,
      Frame (\<lambda>s. [Some ''https://x.com/nasa/status/1'', Some ''https://x.com/nasa/status/2'']) 1400,
      Frame (\<lambda>s. []) 1400, Frame (\<lambda>s. []) 1400, Frame (\<lambda>s. []) 1400,
      Frame (\<lambda>s. [Some ''https://x.com/nasa/status/3'']) 2000]"

text \<open>
  What holds of the loop variables of \<^verbatim>\<open>collectTweetIds\<close> at every turn: the set is
  within the ceiling and free of duplicates, the counter within its threshold.
\<close>

definition scanInv :: "nat \<Rightarrow> scan \<Rightarrow> bool" where
  "scanInv maxScan s \<longleftrightarrow>
     length (tweetUrlSet s) \<le> maxScan \<and> distinct (tweetUrlSet s) \<and> noChangeCount s \<le> MAX_NO_CHANGE"

section \<open>Run orchestrator\<close>

text \<open>
  The configured caps. Each is a count parsed from a decimal option, so a natural
  number. (\<^verbatim>\<open>parseInt\<close> of a negative or non-numeric option gives a negative number or
  \<^verbatim>\<open>NaN\<close>; with either as a cap no loop below is entered. Such options are not
  modelled.)
\<close>

record config =
  TWEETS_TO_LIKE :: nat
  DAILY_CAP :: nat
  MAX_SCAN :: nat

text \<open>
  The browser, as the act loop meets it: \<open>views k\<close> are the page snapshots the \<open>k\<close>-th
  call of \<^verbatim>\<open>likeTweetById\<close> sees, \<open>frames k\<close> is what the page answers to the \<open>k\<close>-th
  call of \<^verbatim>\<open>collectTweetIds\<close>; \<open>loader\<close>, \<open>loginPage\<close> and \<open>rateLimited\<close> answer
  \<^verbatim>\<open>robustGoto\<close>, \<^verbatim>\<open>isLoginPage\<close> and the first two calls of \<^verbatim>\<open>isRateLimited\<close>.
\<close>

record env =
  views :: "nat \<Rightarrow> nat \<Rightarrow> dom"
  frames :: "nat \<Rightarrow> frame list"
  loader :: loader
  loginPage :: bool
  rateLimited :: "nat \<Rightarrow> bool"

text \<open>
  The variables of \<^verbatim>\<open>processUrl\<close> from line 349 on, and what the loop has done to the
  outside: \<open>invoked\<close> lists the calls of \<^verbatim>\<open>likeTweetById\<close> (the URL passed and what came
  back), \<open>saves\<close> the ledgers passed to \<^verbatim>\<open>saveProcessed\<close>, \<open>scans\<close> counts the calls of
  \<^verbatim>\<open>collectTweetIds\<close>.
\<close>

record run =
  processed :: ledger
  likedCount :: nat
  tweetUrls :: "string list"
  processedUrls :: "string list"
  invoked :: "(string \<times> (error + like_result)) list"
  saves :: "ledger list"
  scans :: nat

text \<open>
  \<^verbatim>\<open>processed.liked[statusId]\<close> read as a condition. The key \<^verbatim>\<open>undefined\<close> is looked
  up as the string \<open>undefined\<close>. \<^verbatim>\<open>liked\<close> is a plain object, so a key it does not own is
  found on \<^verbatim>\<open>Object.prototype\<close>, whose twelve properties are all truthy.
\<close>

definition objectPrototypeKeys :: "string list" where
  "objectPrototypeKeys =
     [''constructor'', ''__proto__'', ''hasOwnProperty'', ''isPrototypeOf'',
      ''propertyIsEnumerable'', ''toLocaleString'', ''toString'', ''valueOf'',
      ''__defineGetter__'', ''__defineSetter__'', ''__lookupGetter__'', ''__lookupSetter__'']"

definition likedLookup :: "ledger \<Rightarrow> string option \<Rightarrow> bool" where
  "likedLookup p statusId =
     (let key = (case statusId of None \<Rightarrow> ''undefined'' | Some s \<Rightarrow> s)
      in case liked p key of
           Some b \<Rightarrow> b
         | None \<Rightarrow> key \<in> set objectPrototypeKeys)"

text \<open>
  \<^verbatim>\<open>processed.liked[statusId] = true\<close>. Assigning a boolean to the key
  \<^verbatim>\<open>__proto__\<close> does nothing unless the object owns a property of that name.
\<close>

definition markLiked :: "string \<Rightarrow> ledger \<Rightarrow> ledger" where
  "markLiked statusId p =
     (if statusId = ''__proto__'' \<and> liked p statusId = None then p
      else p\<lparr>liked := (liked p)(statusId \<mapsto> True)\<rparr>)"

text \<open>
  Lines 406-441: what the loop does with the outcome of \<^verbatim>\<open>likeTweetById\<close>, a result
  or a thrown error (the \<^verbatim>\<open>catch\<close> of line 442). \<^verbatim>\<open>saveProcessed\<close>, \<^verbatim>\<open>logMessage\<close>,
  \<^verbatim>\<open>randomDelay\<close> and \<^verbatim>\<open>isRateLimited\<close> do not throw; the delay and the rate-limit
  backoff only wait.
\<close>

definition onOutcome :: "string \<Rightarrow> (error + like_result) \<Rightarrow> run \<Rightarrow> run" where
  "onOutcome statusUrl outcome st =
     (let statusId = statusIdOf statusUrl in
      case outcome of
        Inl error \<Rightarrow> st\<lparr>processedUrls := setAdd statusUrl (processedUrls st)\<rparr>
      | Inr result \<Rightarrow>
          if ok result then
            (let st1 = (if already result then st
                        else st\<lparr>likedCount := likedCount st + 1,
                                processed := (processed st)\<lparr>dayCount := dayCount (processed st) + 1\<rparr>\<rparr>);
                 st2 = (case statusId of
                          None \<Rightarrow> st1
                        | Some sid \<Rightarrow>
                            if truthy statusId
                            then st1\<lparr>processed := markLiked sid (processed st1)\<rparr>
                            else st1);
                 st3 = st2\<lparr>processedUrls := setAdd statusUrl (processedUrls st2)\<rparr>
             in st3\<lparr>saves := saves st3 @ [processed st3]\<rparr>)
          else st\<lparr>processedUrls := setAdd statusUrl (processedUrls st)\<rparr>)"

text \<open>
  Lines 392-445, one item after the two cap checks: skip an identifier the ledger
  already holds, else call \<^verbatim>\<open>likeTweetById\<close> on the snapshots of this call and handle
  its outcome.
\<close>

definition forItem :: "env \<Rightarrow> string \<Rightarrow> run \<Rightarrow> run" where
  "forItem e statusUrl st =
     (let statusId = statusIdOf statusUrl in
      if truthy statusId \<and> likedLookup (processed st) statusId
      then st\<lparr>processedUrls := setAdd statusUrl (processedUrls st)\<rparr>
      else
        (let outcome = fst (likeTweetById (views e (length (invoked st))) statusUrl)
         in onOutcome statusUrl outcome (st\<lparr>invoked := invoked st @ [(statusUrl, outcome)]\<rparr>)))"

text \<open>
  The \<^verbatim>\<open>for (const statusUrl of remainingUrls)\<close> loop of lines 379-446, with its two
  \<^verbatim>\<open>break\<close>s.
\<close>

fun forLoop :: "config \<Rightarrow> env \<Rightarrow> run \<Rightarrow> string list \<Rightarrow> run" where
  "forLoop cfg e st [] = st"
| "forLoop cfg e st (statusUrl # rest) =
     (if dayCount (processed st) \<ge> DAILY_CAP cfg then st
      else if likedCount st \<ge> TWEETS_TO_LIKE cfg then st
      else forLoop cfg e (forItem e statusUrl st) rest)"

text \<open>
  Lines 366-374 and 453-461: scroll, collect again and append the URLs not yet
  attempted. \<open>None\<close>: the scan did not return within its frames. \<open>Some (Inl error)\<close>: it
  threw.
\<close>

definition recollect :: "config \<Rightarrow> env \<Rightarrow> run \<Rightarrow> (error + run) option" where
  "recollect cfg e st =
     (case collectTweetIds (MAX_SCAN cfg) (frames e (scans st)) of
        None \<Rightarrow> None
      | Some (Inl error) \<Rightarrow> Some (Inl error)
      | Some (Inr newUrls) \<Rightarrow>
          Some (Inr (st\<lparr>tweetUrls :=
                           tweetUrls st @ filter (\<lambda>url. url \<notin> set (processedUrls st)) newUrls,
                         scans := Suc (scans st)\<rparr>)))"

text \<open>
  How the act loop ended: it left the \<^verbatim>\<open>while\<close>, an error escaped to the \<^verbatim>\<open>catch\<close> of
  line 469, or it was still running when the fuel or a scan's frames ran out.
\<close>

datatype outcome = Finished run | Threw error run | Unfinished run

fun stateOf :: "outcome \<Rightarrow> run" where
  "stateOf (Finished st) = st"
| "stateOf (Threw error st) = st"
| "stateOf (Unfinished st) = st"

text \<open>
  The \<^verbatim>\<open>while\<close> loop of lines 356-464. Nothing bounds its iterations (a page with no
  new links makes it collect for ever), so it runs on fuel, one unit per iteration.
\<close>

fun actLoop :: "config \<Rightarrow> env \<Rightarrow> nat \<Rightarrow> run \<Rightarrow> outcome" where
  "actLoop cfg e fuel st =
     (if likedCount st < TWEETS_TO_LIKE cfg \<and> dayCount (processed st) < DAILY_CAP cfg
         \<and> length (tweetUrls st) > 0 then
        (case fuel of
           0 \<Rightarrow> Unfinished st
         | Suc fuel' \<Rightarrow>
             (let remainingUrls =
                    filter (\<lambda>url. \<not> likedLookup (processed st) (statusIdOf url)
                                  \<and> url \<notin> set (processedUrls st)) (tweetUrls st)
              in if length remainingUrls = 0 then
                   (case recollect cfg e st of
                      None \<Rightarrow> Unfinished st
                    | Some (Inl error) \<Rightarrow> Threw error st
                    | Some (Inr st') \<Rightarrow> actLoop cfg e fuel' st')
                 else
                   (let st1 = forLoop cfg e st remainingUrls in
                    if likedCount st1 < TWEETS_TO_LIKE cfg
                       \<and> dayCount (processed st1) < DAILY_CAP cfg
                       \<and> length (filter (\<lambda>url. url \<notin> set (processedUrls st1)) (tweetUrls st1)) = 0
                    then
                      (case recollect cfg e st1 of
                         None \<Rightarrow> Unfinished st1
                       | Some (Inl error) \<Rightarrow> Threw error st1
                       | Some (Inr st') \<Rightarrow> actLoop cfg e fuel' st')
                    else actLoop cfg e fuel' st1)))
      else Finished st)"

text \<open>The state at line 356: the first scan has been made, nothing has been liked.\<close>

definition startRun :: "ledger \<Rightarrow> string list \<Rightarrow> run" where
  "startRun p urls =
     \<lparr>processed = p, likedCount = 0, tweetUrls = urls, processedUrls = [],
      invoked = [], saves = [], scans = 1\<rparr>"

text \<open>The value \<^verbatim>\<open>processUrl\<close> returns: \<^verbatim>\<open>{ success, liked }\<close>.\<close>

record url_result =
  success :: bool
  likedTotal :: nat

text \<open>
  \<^verbatim>\<open>processUrl(page, url, processed)\<close>: the returned object (\<open>None\<close> while the act loop
  or a scan is still running) and the state it leaves. Every error thrown inside is
  caught at line 469 and turned into \<^verbatim>\<open>{ success: false, liked: 0 }\<close>; the ledger keeps
  what the loop had written into it. A thrown \<^verbatim>\<open>null\<close> would make that handler itself
  throw a \<^verbatim>\<open>TypeError\<close> when it reads \<^verbatim>\<open>error.message\<close> (\<open>Inl\<close>).
\<close>

definition processUrl ::
  "config \<Rightarrow> env \<Rightarrow> nat \<Rightarrow> string \<Rightarrow> ledger \<Rightarrow> error + (url_result option \<times> run)" where
  "processUrl cfg e fuel url p =
     (let failed = \<lparr>success = False, likedTotal = 0\<rparr>;
          idle = (startRun p [])\<lparr>scans := 0\<rparr>
      in case fst (robustGoto (loader e) url) of
           Inl None \<Rightarrow> Inl (Error ''TypeError'')
         | Inl (Some error) \<Rightarrow> Inr (Some failed, idle)
         | Inr _ \<Rightarrow>
             if loginPage e then Inr (Some failed, idle)
             else if rateLimited e 0 \<and> rateLimited e 1 then Inr (Some failed, idle)
             else
               (case collectTweetIds (MAX_SCAN cfg) (frames e 0) of
                  None \<Rightarrow> Inr (None, idle)
                | Some (Inl error) \<Rightarrow> Inr (Some failed, idle)
                | Some (Inr urls) \<Rightarrow>
                    (case actLoop cfg e fuel (startRun p urls) of
                       Finished st \<Rightarrow>
                         Inr (Some \<lparr>success = True, likedTotal = likedCount st\<rparr>, st)
                     | Threw error st \<Rightarrow> Inr (Some failed, st)
                     | Unfinished st \<Rightarrow> Inr (None, st))))"

section \<open>Invariants of the act loop\<close>

text \<open>The number of calls of \<^verbatim>\<open>likeTweetById\<close> that came back as \<^verbatim>\<open>{ ok: true }\<close>.\<close>

definition likesPerformed :: "run \<Rightarrow> nat" where
  "likesPerformed st = length (filter (\<lambda>(url, outcome). outcome = Inr Liked) (invoked st))"

text \<open>
  The quota invariant relative to the ledger \<open>p\<close> the run started with: every like
  performed raised both counters by one, both counters are within their caps, and so
  was every ledger handed to \<^verbatim>\<open>saveProcessed\<close>.
\<close>

definition quotaInv :: "config \<Rightarrow> ledger \<Rightarrow> run \<Rightarrow> bool" where
  "quotaInv cfg p st \<longleftrightarrow>
     likedCount st = likesPerformed st \<and>
     dayCount (processed st) = dayCount p + likesPerformed st \<and>
     likedCount st \<le> TWEETS_TO_LIKE cfg \<and>
     dayCount (processed st) \<le> DAILY_CAP cfg \<and>
     list_all (\<lambda>l. dayCount l \<le> DAILY_CAP cfg) (saves st)"

text \<open>
  The dedup invariant relative to \<open>p\<close>: what \<open>p\<close> held is still held, and no URL whose
  identifier \<open>p\<close> held was passed to \<^verbatim>\<open>likeTweetById\<close>.
\<close>

definition dedupInv :: "ledger \<Rightarrow> run \<Rightarrow> bool" where
  "dedupInv p st \<longleftrightarrow>
     (\<forall>statusId. likedLookup p statusId \<longrightarrow> likedLookup (processed st) statusId) \<and>
     list_all (\<lambda>(url, outcome). \<not> likedLookup p (statusIdOf url)) (invoked st)"

section \<open>A worked run\<close>

text \<open>
  One target with five permalinks on the page, a per-target cap of 2 and a daily cap
  of 10. The ledger already holds identifier \<open>1\<close> and one like of today. Every article
  is on the page and not yet liked, and every click resolves.
\<close>

definition scenarioConfig :: config where
  "scenarioConfig = \<lparr>TWEETS_TO_LIKE = 2, DAILY_CAP = 10, MAX_SCAN = 500\<rparr>"

definition scenarioLedger :: ledger where
  "scenarioLedger = \<lparr>liked = [''1'' \<mapsto> True], dayCount = 1, dayStart = ''2026-11-03''\<rparr>"

definition scenarioUrls :: "string list" where
  "scenarioUrls =
     [''https://x.com/nasa/status/1'', ''https://x.com/nasa/status/2'',
      ''https://x.com/nasa/status/3'', ''https://x.com/nasa/status/4'',
      ''https://x.com/nasa/status/5'']"

text \<open>A selector engine that rejects every selector it is asked about.\<close>

definition rejectingEngine :: "locator \<Rightarrow> string \<Rightarrow> error + article list" where
  "rejectingEngine l v = Inl (Error ''Unexpected token while parsing selector'')"

definition scenarioDom :: dom where
  "scenarioDom =
     \<lparr>articles =
        map (\<lambda>h. \<lparr>hrefs = [h], unlikeVisible = False, clickError = None\<rparr>)
          [''/nasa/status/1'', ''/nasa/status/2'', ''/nasa/status/3'', ''/nasa/status/4'',
           ''/nasa/status/5''],
      engine = rejectingEngine\<rparr>"

definition scenarioEnv :: env where
  "scenarioEnv =
     \<lparr>views = (\<lambda>k r. scenarioDom),
      frames = (\<lambda>k. [Frame (\<lambda>s. map Some scenarioUrls) 900, Frame (\<lambda>s. []) 900,
                      Frame (\<lambda>s. []) 900, Frame (\<lambda>s. []) 900]),
      loader = (\<lambda>k url. None),
      loginPage = False,
      rateLimited = (\<lambda>k. False)\<rparr>"

text \<open>A page that shows no article at all, and the same run on it.\<close>

definition emptyDom :: dom where
  "emptyDom = \<lparr>articles = [], engine = rejectingEngine\<rparr>"

definition emptyPageEnv :: env where
  "emptyPageEnv = scenarioEnv\<lparr>views := (\<lambda>k r. emptyDom)\<rparr>"

text \<open>A page whose one article is the tweet with identifier \<open>2\<close>, already liked.\<close>

definition likedDom :: dom where
  "likedDom =
     \<lparr>articles =
        [\<lparr>hrefs = [''/nasa'', ''/nasa/status/2''], unlikeVisible = True, clickError = None\<rparr>],
      engine = rejectingEngine\<rparr>"

text \<open>
  A page with two tweets: first the tweet with identifier \<open>25\<close>, not liked, then the
  tweet with identifier \<open>2\<close>, already liked.
\<close>

definition prefixDom :: dom where
  "prefixDom =
     \<lparr>articles =
        [\<lparr>hrefs = [''/nasa'', ''/nasa/status/25''], unlikeVisible = False, clickError = None\<rparr>,
         \<lparr>hrefs = [''/nasa'', ''/nasa/status/2''], unlikeVisible = True, clickError = None\<rparr>],
      engine = rejectingEngine\<rparr>"

text \<open>
  A page with two tweets: first a tweet, not liked, whose text links to the tweet with
  identifier \<open>2\<close>, then that tweet itself, already liked.
\<close>

definition linkingDom :: dom where
  "linkingDom =
     \<lparr>articles =
        [\<lparr>hrefs = [''/esa'', ''/esa/status/7'', ''https://x.com/nasa/status/2''],
          unlikeVisible = False, clickError = None\<rparr>,
         \<lparr>hrefs = [''/nasa'', ''/nasa/status/2''], unlikeVisible = True, clickError = None\<rparr>],
      engine = rejectingEngine\<rparr>"

section \<open>Verified properties\<close>

subsection \<open>String helpers\<close>

lemma splitAcc_nonempty: "splitAcc sep acc s \<noteq> []"
  by (induction sep acc s rule: splitAcc.induct) auto

subsection \<open>Date rollover at load\<close>

lemma todayOf_ex: "todayOf ''2026-11-03T10:19:00.000Z'' = ''2026-11-03''"
  by (simp add: todayOf_def str_split_def)

text \<open>
  Claim C2. Loading resets the day counter exactly when the stored day is not today:
  with no readable file the result is the zero-valued ledger stamped with today; a
  stored ledger whose \<open>dayStart\<close> differs from today comes back with \<open>dayCount = 0\<close>,
  \<open>dayStart\<close> set to today and every other field (the \<open>liked\<close> map) as read; a stored
  ledger whose \<open>dayStart\<close> is today comes back as read.
\<close>

theorem loadProcessed_rollover:
  "loadProcessed None now = \<lparr>liked = Map.empty, dayCount = 0, dayStart = todayOf now\<rparr> \<and>
   (dayStart d \<noteq> todayOf now \<longrightarrow>
      loadProcessed (Some d) now = d\<lparr>dayCount := 0, dayStart := todayOf now\<rparr>) \<and>
   (dayStart d = todayOf now \<longrightarrow> loadProcessed (Some d) now = d)"
  by (simp add: loadProcessed_def zeroLedger_def Let_def)

theorem loadProcessed_rollover_witness:
  "loadProcessed (Some \<lparr>liked = [''17'' \<mapsto> True], dayCount = 300, dayStart = ''2026-11-02''\<rparr>)
     ''2026-11-03T10:19:00.000Z''
   = \<lparr>liked = [''17'' \<mapsto> True], dayCount = 0, dayStart = ''2026-11-03''\<rparr> \<and>
   loadProcessed (Some \<lparr>liked = [''17'' \<mapsto> True], dayCount = 300, dayStart = ''2026-11-03''\<rparr>)
     ''2026-11-03T10:19:00.000Z''
   = \<lparr>liked = [''17'' \<mapsto> True], dayCount = 300, dayStart = ''2026-11-03''\<rparr> \<and>
   loadProcessed None ''2026-11-03T10:19:00.000Z''
   = \<lparr>liked = Map.empty, dayCount = 0, dayStart = ''2026-11-03''\<rparr>"
  using loadProcessed_rollover
    [of "''2026-11-03T10:19:00.000Z''"
        "\<lparr>liked = [''17'' \<mapsto> True], dayCount = 300, dayStart = ''2026-11-02''\<rparr>"]
    loadProcessed_rollover
    [of "''2026-11-03T10:19:00.000Z''"
        "\<lparr>liked = [''17'' \<mapsto> True], dayCount = 300, dayStart = ''2026-11-03''\<rparr>"]
  by (simp add: todayOf_ex)

subsection \<open>Backoff bounds\<close>

lemma expo_int: "\<exists>k::int. 0 \<le> k \<and> min ((1000::real) * 2 ^ n) 60000 * 0.3 = of_int k"
proof (cases "n \<le> 5")
  case True
  then have "(2::real) ^ n \<le> 2 ^ 5" by (intro power_increasing) simp_all
  then have "min ((1000::real) * 2 ^ n) 60000 = 1000 * 2 ^ n" by simp
  then have "min ((1000::real) * 2 ^ n) 60000 * 0.3 = of_int (300 * 2 ^ n)" by simp
  then show ?thesis by (intro exI [of _ "300 * 2 ^ n"]) simp
next
  case False
  then have "(2::real) ^ 6 \<le> 2 ^ n" by (intro power_increasing) simp_all
  then have "min ((1000::real) * 2 ^ n) 60000 = 60000" by simp
  then have "min ((1000::real) * 2 ^ n) 60000 * 0.3 = of_int 18000" by simp
  then show ?thesis by (intro exI [of _ 18000]) simp
qed

text \<open>
  Claim C7. For every attempt index \<open>n\<close> and every draw \<open>rnd\<close> in \<open>[0, 1)\<close>, the delay
  \<open>calculateBackoff n rnd\<close> lies between the capped exponential delay
  \<open>min (1000 * 2 ^ n) 60000\<close> and 1.3 times that value.
\<close>

theorem calculateBackoff_bounds:
  assumes "0 \<le> (rnd::real)" "rnd < 1"
  shows "min (1000 * 2 ^ n) 60000 \<le> calculateBackoff n rnd \<and>
         calculateBackoff n rnd \<le> 1.3 * min (1000 * 2 ^ n) 60000"
proof -
  define E :: real where "E = min (1000 * 2 ^ n) 60000"
  obtain k :: int where kpos: "0 \<le> k" and Ek: "E * 0.3 = of_int k"
    unfolding E_def using expo_int by blast
  have cb: "calculateBackoff n rnd = E + of_int \<lfloor>rnd * (of_int k + 1)\<rfloor>"
    unfolding calculateBackoff_def randomBetween_def Let_def E_def[symmetric] Ek by simp
  have "0 \<le> rnd * (of_int k + 1)" using assms kpos by simp
  then have lo: "0 \<le> \<lfloor>rnd * (of_int k + 1)\<rfloor>" by simp
  have "rnd * (of_int k + 1) < of_int k + 1" using assms kpos
    by (smt (verit) mult_less_cancel_right2 of_int_0_le_iff)
  then have hi: "\<lfloor>rnd * (of_int k + 1)\<rfloor> \<le> k" by (simp add: floor_le_iff)
  have "E + of_int \<lfloor>rnd * (of_int k + 1)\<rfloor> \<le> E + of_int k" using hi by simp
  also have "\<dots> = 1.3 * E" using Ek by simp
  finally have up: "calculateBackoff n rnd \<le> 1.3 * E" using cb by simp
  have "E \<le> calculateBackoff n rnd" using cb lo by simp
  with up show ?thesis unfolding E_def by simp
qed

theorem calculateBackoff_bounds_witness:
  "(0::real) \<le> 1/2 \<and> (1/2::real) < 1 \<and> calculateBackoff 3 (1/2) = 9200 \<and>
   min (1000 * 2 ^ 3) 60000 \<le> calculateBackoff 3 (1/2) \<and>
   calculateBackoff 3 (1/2) \<le> 1.3 * min (1000 * 2 ^ 3) 60000"
proof -
  have v: "calculateBackoff 3 (1/2) = 9200"
    by (simp add: calculateBackoff_def randomBetween_def)
  show ?thesis using calculateBackoff_bounds [of "1/2" 3] v by simp
qed

subsection \<open>Fallback navigation\<close>

lemma replaceAll_id: "\<not> str_includes s lit \<Longrightarrow> replaceAll lit rep s = s"
  by (induction lit rep s rule: replaceAll.induct) auto

lemma replaceAll_skip:
  "c \<notin> set pre \<Longrightarrow> replaceAll (c # lit) rep (pre @ s) = pre @ replaceAll (c # lit) rep s"
  by (induction pre) auto

lemma replaceAll_host:
  assumes "CHR ''x'' \<notin> set scheme" "\<not> str_includes rest ''x.com''"
  shows "replaceAll ''x.com'' ''twitter.com'' (scheme @ ''x.com'' @ rest) = scheme @ ''twitter.com'' @ rest"
  using assms by (simp add: replaceAll_skip replaceAll_id)

lemma includes_append: "str_includes s pat \<Longrightarrow> str_includes (pre @ s) pat"
  by (induction pre) auto

lemma primary_fail2:
  assumes "load 0 url = Some e0" "load (Suc 0) url = Some e1"
  shows "primaryLoop load url 2 0 None [] = Inl (Some e1, [Goto url, Backoff 0, Goto url])"
  using assms by (simp add: numeral_2_eq_2)

text \<open>
  Where \<open>x.com\<close> occurs only as the host (here: no \<open>x\<close> before it, no \<open>x.com\<close> after
  it) and both primary loads fail, \<open>robustGoto\<close> loads the target twice, with one
  backoff in between, then the same rest on \<open>twitter.com\<close> once; it returns \<open>true\<close> when
  that load succeeds and throws the last primary error when it fails.
\<close>

lemma robustGoto_host_only:
  assumes "url = scheme @ ''x.com'' @ rest"
    and "CHR ''x'' \<notin> set scheme" and "\<not> str_includes rest ''x.com''"
    and "load 0 url = Some e0" and "load 1 url = Some e1"
  shows "snd (robustGoto load url) =
           [Goto url, Backoff 0, Goto url, Goto (alternateDomainUrl scheme rest)] \<and>
         fst (robustGoto load url) =
           (case load 2 (alternateDomainUrl scheme rest) of
              None \<Rightarrow> Inr True
            | Some e \<Rightarrow> Inl (Some e1))"
proof -
  have inc: "str_includes url ''x.com''"
    unfolding assms(1) by (rule includes_append) simp
  have alt: "replaceAll ''x.com'' ''twitter.com'' url = alternateDomainUrl scheme rest"
    unfolding assms(1) alternateDomainUrl_def using assms(2,3) by (rule replaceAll_host)
  have prim: "primaryLoop load url 2 0 None [] = Inl (Some e1, [Goto url, Backoff 0, Goto url])"
    using assms(4,5) by (intro primary_fail2) simp_all
  show ?thesis
    unfolding robustGoto_def Let_def prim using inc alt
    by (simp split: option.splits)
qed

lemma robustGoto_host_only_example:
  "robustGoto (\<lambda>k u. Some (Error (if k = 0 then ''first'' else if k = 1 then ''second'' else ''third'')))
     ''https://x.com/nasa'' =
     (Inl (Some (Error ''second'')),
      [Goto ''https://x.com/nasa'', Backoff 0, Goto ''https://x.com/nasa'',
       Goto ''https://twitter.com/nasa''])"
  by (simp add: robustGoto_def numeral_2_eq_2)

text \<open>With its two primary attempts \<open>robustGoto\<close> never throws \<^verbatim>\<open>null\<close>.\<close>

lemma robustGoto_never_null: "fst (robustGoto load url) \<noteq> Inl None"
  by (auto simp: robustGoto_def numeral_2_eq_2 Let_def split: option.splits)

text \<open>
  Claim C6. The fallback URL is the target with every occurrence of \<open>x.com\<close> replaced,
  not only the host. For the target \<open>https://x.com/x.com\<close> with every load failing,
  \<open>robustGoto\<close> makes its two primary loads and one fallback load, and throws the last
  primary error; but the fallback load goes to \<open>https://twitter.com/twitter.com\<close>, and
  the same path on the alternate domain, \<open>https://twitter.com/x.com\<close>, is never loaded.
  For a search target the query is rewritten in the same way.
\<close>

theorem robustGoto_rewrites_path:
  "robustGoto (\<lambda>k u. Some (Error ''timeout'')) (''https://'' @ ''x.com'' @ ''/x.com'') =
     (Inl (Some (Error ''timeout'')),
      [Goto ''https://x.com/x.com'', Backoff 0, Goto ''https://x.com/x.com'',
       Goto ''https://twitter.com/twitter.com'']) \<and>
   alternateDomainUrl ''https://'' ''/x.com'' = ''https://twitter.com/x.com'' \<and>
   Goto (alternateDomainUrl ''https://'' ''/x.com'')
     \<notin> set (snd (robustGoto (\<lambda>k u. Some (Error ''timeout'')) (''https://'' @ ''x.com'' @ ''/x.com''))) \<and>
   snd (robustGoto (\<lambda>k u. Some (Error ''timeout'')) ''https://x.com/search?q=x.com'') =
     [Goto ''https://x.com/search?q=x.com'', Backoff 0, Goto ''https://x.com/search?q=x.com'',
      Goto ''https://twitter.com/search?q=twitter.com'']"
  by (simp add: robustGoto_def alternateDomainUrl_def numeral_2_eq_2)

subsection \<open>Content identifier extraction\<close>

text \<open>
  Claim C9. The key \<open>processUrl\<close> and \<open>likeTweetById\<close> derive from a permalink is whatever
  follows the first \<open>/status/\<close> up to the next \<open>?\<close>. An article whose first status link has
  a trailing segment is collected under that link, and its key is then not the numeric
  identifier, while \<open>findTweetId\<close> of \<open>helper.js\<close> extracts the digits alone from the same
  link, the key the plain permalink of the same tweet gets.
\<close>

theorem statusIdOf_trailing_segments:
  "extractStatusUrlFn
     [''https://x.com/nasa/status/123/photo/1?s=20'', ''https://x.com/nasa/status/123''] []
     = Some ''https://x.com/nasa/status/123/photo/1'' \<and>
   statusIdOf ''https://x.com/nasa/status/123/photo/1'' = Some ''123/photo/1'' \<and>
   \<not> list_all isDigit ''123/photo/1'' \<and>
   findTweetId [''https://x.com/nasa/status/123/photo/1''] [] = Some ''123'' \<and>
   statusIdOf ''https://x.com/nasa/status/123'' = Some ''123''"
  by (simp add: statusIdOf_def str_split_def findTweetId_def isDigit_def extractStatusUrlFn_def
      statusUrlOfHref_def stripQuery_def)

subsection \<open>The act loop: what one outcome does to the state\<close>

declare actLoop.simps [simp del]

lemma recollect_fields:
  "recollect cfg e st = Some (Inr st') \<Longrightarrow>
     processed st' = processed st \<and> likedCount st' = likedCount st \<and>
     invoked st' = invoked st \<and> saves st' = saves st \<and> processedUrls st' = processedUrls st"
  by (auto simp: recollect_def split: option.splits sum.splits prod.splits)

lemma onOutcome_fail:
  "\<not> (\<exists>r. outcome = Inr r \<and> ok r) \<Longrightarrow>
     processed (onOutcome u outcome st) = processed st \<and>
     likedCount (onOutcome u outcome st) = likedCount st \<and>
     saves (onOutcome u outcome st) = saves st \<and>
     invoked (onOutcome u outcome st) = invoked st"
  by (cases outcome) (auto simp: onOutcome_def Let_def)

lemma markLiked_dayCount [simp]: "dayCount (markLiked sid p) = dayCount p"
  by (simp add: markLiked_def)

lemma markLiked_dayStart [simp]: "dayStart (markLiked sid p) = dayStart p"
  by (simp add: markLiked_def)

lemma onOutcome_already:
  "processed (onOutcome u (Inr Already) st) =
     (case statusIdOf u of
        None \<Rightarrow> processed st
      | Some sid \<Rightarrow> if sid \<noteq> [] then markLiked sid (processed st) else processed st) \<and>
   likedCount (onOutcome u (Inr Already) st) = likedCount st \<and>
   saves (onOutcome u (Inr Already) st) = saves st @ [processed (onOutcome u (Inr Already) st)] \<and>
   invoked (onOutcome u (Inr Already) st) = invoked st"
  by (auto simp: onOutcome_def Let_def split: option.splits)

lemma onOutcome_liked:
  "processed (onOutcome u (Inr Liked) st) =
     (case statusIdOf u of
        None \<Rightarrow> (processed st)\<lparr>dayCount := dayCount (processed st) + 1\<rparr>
      | Some sid \<Rightarrow> if sid \<noteq> [] then markLiked sid ((processed st)\<lparr>dayCount := dayCount (processed st) + 1\<rparr>)
                    else (processed st)\<lparr>dayCount := dayCount (processed st) + 1\<rparr>) \<and>
   likedCount (onOutcome u (Inr Liked) st) = likedCount st + 1 \<and>
   saves (onOutcome u (Inr Liked) st) = saves st @ [processed (onOutcome u (Inr Liked) st)] \<and>
   invoked (onOutcome u (Inr Liked) st) = invoked st"
  by (auto simp: onOutcome_def Let_def split: option.splits)

lemma outcome_cases:
  fixes outcome :: "error + like_result"
  obtains (fail) "\<not> (\<exists>r. outcome = Inr r \<and> ok r)" | (already) "outcome = Inr Already" | (liked) "outcome = Inr Liked"
proof (cases outcome)
  case (Inl a) then show ?thesis using fail by auto
next
  case (Inr r) then show ?thesis using fail already liked by (cases r) auto
qed

lemma onOutcome_dayCount:
  "dayCount (processed (onOutcome u outcome st)) =
     dayCount (processed st) + (if outcome = Inr Liked then 1 else 0) \<and>
   likedCount (onOutcome u outcome st) = likedCount st + (if outcome = Inr Liked then 1 else 0)"
proof (cases outcome rule: outcome_cases)
  case fail then show ?thesis using onOutcome_fail [OF fail, of u st] by auto
next
  case already then show ?thesis using onOutcome_already [of u st] by (auto split: option.splits)
next
  case liked then show ?thesis using onOutcome_liked [of u st] by (auto split: option.splits)
qed

lemma onOutcome_saves:
  "saves (onOutcome u outcome st) = saves st \<or>
   saves (onOutcome u outcome st) = saves st @ [processed (onOutcome u outcome st)]"
proof (cases outcome rule: outcome_cases)
  case fail then show ?thesis using onOutcome_fail [OF fail, of u st] by auto
next
  case already then show ?thesis using onOutcome_already [of u st] by auto
next
  case liked then show ?thesis using onOutcome_liked [of u st] by auto
qed

lemma onOutcome_invoked: "invoked (onOutcome u outcome st) = invoked st"
proof (cases outcome rule: outcome_cases)
  case fail then show ?thesis using onOutcome_fail [OF fail, of u st] by auto
next
  case already then show ?thesis using onOutcome_already [of u st] by auto
next
  case liked then show ?thesis using onOutcome_liked [of u st] by auto
qed

subsection \<open>The act loop: quotas\<close>

lemma forItem_quota:
  assumes "quotaInv cfg p st" "likedCount st < TWEETS_TO_LIKE cfg" "dayCount (processed st) < DAILY_CAP cfg"
  shows "quotaInv cfg p (forItem e u st)"
proof (cases "truthy (statusIdOf u) \<and> likedLookup (processed st) (statusIdOf u)")
  case True
  then have "forItem e u st = st\<lparr>processedUrls := setAdd u (processedUrls st)\<rparr>"
    by (simp add: forItem_def Let_def)
  then show ?thesis using assms(1) by (simp add: quotaInv_def likesPerformed_def)
next
  case False
  define out where "out = fst (likeTweetById (views e (length (invoked st))) u)"
  define st0 where "st0 = st\<lparr>invoked := invoked st @ [(u, out)]\<rparr>"
  have fi: "forItem e u st = onOutcome u out st0"
    using False by (auto simp add: forItem_def Let_def out_def st0_def)
  have lp: "likesPerformed (onOutcome u out st0) = likesPerformed st + (if out = Inr Liked then 1 else 0)"
    by (simp add: likesPerformed_def onOutcome_invoked st0_def)
  have dc: "dayCount (processed (onOutcome u out st0)) = dayCount (processed st) + (if out = Inr Liked then 1 else 0)"
    and lc: "likedCount (onOutcome u out st0) = likedCount st + (if out = Inr Liked then 1 else 0)"
    using onOutcome_dayCount [of u out st0] by (simp_all add: st0_def)
  have sv: "list_all (\<lambda>l. dayCount l \<le> DAILY_CAP cfg) (saves (onOutcome u out st0))"
    using onOutcome_saves [of u out st0] assms dc by (auto simp: st0_def quotaInv_def)
  show ?thesis unfolding fi quotaInv_def using assms lp dc lc sv
    by (auto simp: quotaInv_def)
qed

lemma forLoop_quota:
  "quotaInv cfg p st \<Longrightarrow> quotaInv cfg p (forLoop cfg e st urls)"
proof (induction urls arbitrary: st)
  case Nil then show ?case by simp
next
  case (Cons u urls)
  then show ?case by (auto simp: not_le intro: forItem_quota)
qed

lemma recollect_quota:
  "quotaInv cfg p st \<Longrightarrow> recollect cfg e st = Some (Inr st') \<Longrightarrow> quotaInv cfg p st'"
  using recollect_fields [of cfg e st st'] by (simp add: quotaInv_def likesPerformed_def)

lemma actLoop_quota:
  "quotaInv cfg p st \<Longrightarrow> quotaInv cfg p (stateOf (actLoop cfg e fuel st))"
proof (induction fuel arbitrary: st)
  case 0
  then show ?case by (simp add: actLoop.simps)
next
  case (Suc fuel)
  have fl: "quotaInv cfg p (forLoop cfg e st urls)" for urls
    using Suc.prems by (rule forLoop_quota)
  show ?case
    unfolding actLoop.simps [of cfg e "Suc fuel" st]
    using Suc.prems Suc.IH fl recollect_quota [of cfg p _ e]
    by (auto simp: Let_def split: option.splits sum.splits)
qed

lemma startRun_quota: "dayCount p \<le> DAILY_CAP cfg \<Longrightarrow> quotaInv cfg p (startRun p urls)"
  by (simp add: quotaInv_def startRun_def likesPerformed_def)

subsection \<open>The act loop: dedup\<close>

lemma likedLookup_dayCount [simp]: "likedLookup (p\<lparr>dayCount := n\<rparr>) sid = likedLookup p sid"
  by (simp add: likedLookup_def)

lemma likedLookup_markLiked: "likedLookup p sid \<Longrightarrow> likedLookup (markLiked k p) sid"
  by (auto simp: likedLookup_def markLiked_def Let_def split: option.splits)

lemma likedLookup_markLiked_self: "k \<noteq> [] \<Longrightarrow> likedLookup (markLiked k p) (Some k)"
  by (auto simp: likedLookup_def markLiked_def Let_def objectPrototypeKeys_def split: option.splits)

lemma onOutcome_keeps_liked:
  assumes "likedLookup (processed st) sid"
  shows "likedLookup (processed (onOutcome u outcome st)) sid"
proof (cases outcome rule: outcome_cases)
  case fail then show ?thesis using onOutcome_fail [OF fail, of u st] assms by simp
next
  case already then show ?thesis using onOutcome_already [of u st] assms
    by (auto split: option.splits intro: likedLookup_markLiked)
next
  case liked then show ?thesis using onOutcome_liked [of u st] assms
    by (auto split: option.splits intro: likedLookup_markLiked)
qed

lemma forItem_skip:
  "truthy (statusIdOf u) \<Longrightarrow> likedLookup (processed st) (statusIdOf u) \<Longrightarrow>
     forItem e u st = st\<lparr>processedUrls := setAdd u (processedUrls st)\<rparr>"
  by (simp add: forItem_def Let_def)

lemma forItem_call:
  "\<not> (truthy (statusIdOf u) \<and> likedLookup (processed st) (statusIdOf u)) \<Longrightarrow>
     forItem e u st =
       onOutcome u (fst (likeTweetById (views e (length (invoked st))) u))
         (st\<lparr>invoked := invoked st @ [(u, fst (likeTweetById (views e (length (invoked st))) u))]\<rparr>)"
  by (auto simp add: forItem_def Let_def)

lemma forItem_dedup:
  assumes "dedupInv p st" "\<not> likedLookup p (statusIdOf u)"
  shows "dedupInv p (forItem e u st)"
proof (cases "truthy (statusIdOf u) \<and> likedLookup (processed st) (statusIdOf u)")
  case True
  then show ?thesis using assms(1) by (simp add: forItem_skip dedupInv_def)
next
  case False
  show ?thesis
    unfolding forItem_call [OF False] dedupInv_def
    using assms by (auto simp: dedupInv_def onOutcome_invoked intro!: onOutcome_keeps_liked)
qed

lemma forLoop_dedup:
  "dedupInv p st \<Longrightarrow> list_all (\<lambda>u. \<not> likedLookup p (statusIdOf u)) urls \<Longrightarrow>
     dedupInv p (forLoop cfg e st urls)"
proof (induction urls arbitrary: st)
  case Nil then show ?case by simp
next
  case (Cons u urls)
  then show ?case by (auto intro: forItem_dedup)
qed

lemma recollect_dedup:
  "dedupInv p st \<Longrightarrow> recollect cfg e st = Some (Inr st') \<Longrightarrow> dedupInv p st'"
  using recollect_fields [of cfg e st st'] by (simp add: dedupInv_def)

lemma remaining_dedup:
  assumes "dedupInv p st"
  shows "list_all (\<lambda>u. \<not> likedLookup p (statusIdOf u))
           (filter (\<lambda>url. \<not> likedLookup (processed st) (statusIdOf url) \<and> url \<notin> set (processedUrls st))
              (tweetUrls st))"
  using assms by (auto simp: dedupInv_def list_all_iff)

lemma actLoop_dedup:
  "dedupInv p st \<Longrightarrow> dedupInv p (stateOf (actLoop cfg e fuel st))"
proof (induction fuel arbitrary: st)
  case 0
  then show ?case by (simp add: actLoop.simps)
next
  case (Suc fuel)
  have fl: "dedupInv p (forLoop cfg e st
              (filter (\<lambda>url. \<not> likedLookup (processed st) (statusIdOf url) \<and> url \<notin> set (processedUrls st))
                 (tweetUrls st)))"
    using Suc.prems remaining_dedup [OF Suc.prems] by (rule forLoop_dedup)
  show ?case
    unfolding actLoop.simps [of cfg e "Suc fuel" st]
    using Suc.prems Suc.IH fl recollect_dedup [of p _ cfg e]
    by (auto simp: Let_def split: option.splits sum.splits)
qed

lemma startRun_dedup: "dedupInv p (startRun p urls)"
  by (simp add: dedupInv_def startRun_def)

subsection \<open>The worked run, evaluated\<close>

lemma scenario_ids:
  "statusIdOf ''https://x.com/nasa/status/1'' = Some ''1''"
  "statusIdOf ''https://x.com/nasa/status/2'' = Some ''2''"
  "statusIdOf ''https://x.com/nasa/status/3'' = Some ''3''"
  by (simp_all add: statusIdOf_def str_split_def)

lemma scenario_run:
  "invoked (stateOf (actLoop scenarioConfig scenarioEnv 3 (startRun scenarioLedger scenarioUrls)))
     = [(''https://x.com/nasa/status/2'', Inr Liked), (''https://x.com/nasa/status/3'', Inr Liked)]"
  "dayCount (processed (stateOf (actLoop scenarioConfig scenarioEnv 3 (startRun scenarioLedger scenarioUrls)))) = 3"
  "map dayCount (saves (stateOf (actLoop scenarioConfig scenarioEnv 3 (startRun scenarioLedger scenarioUrls)))) = [2, 3]"
  by code_simp+

lemma scenario_processUrl:
  "(case processUrl scenarioConfig scenarioEnv 3 ''https://x.com/nasa'' scenarioLedger of
      Inl e \<Rightarrow> None
    | Inr (r, st) \<Rightarrow> r) = Some \<lparr>success = True, likedTotal = 2\<rparr>"
  by code_simp

lemma markLiked_idem: "markLiked k (markLiked k p) = markLiked k p"
  by (auto simp: markLiked_def)

lemma scenario_plain:
  "cssPlain ''https://x.com/nasa/status/2''"
  "cssPlain ''2''"
  "cssPlain ''https://x.com/nasa/status/99''"
  "cssPlain ''99''"
  "cssPlain ''https://x.com/nasa/status/123''"
  "cssPlain ''123''"
  by (simp_all add: cssPlain_def cssSpecial_def)

lemma emptyPage_outcome0:
  "fst (likeTweetById (views emptyPageEnv 0) ''https://x.com/nasa/status/2'') =
     Inr (Failed ''tweet-not-found'')"
  by (simp add: emptyPageEnv_def emptyDom_def likeTweetById_def findTarget_def tweetLocator_def
      fallbackLocator_def scenario_ids scenario_plain Let_def)

lemma emptyPage_outcome:
  "fst (likeTweetById (views emptyPageEnv (length (invoked (startRun scenarioLedger scenarioUrls))))
         ''https://x.com/nasa/status/2'') = Inr (Failed ''tweet-not-found'')"
  using emptyPage_outcome0 by (simp add: startRun_def)

lemma retryLoop_already:
  assumes "findTarget (view (Suc 0)) u = Inr (Some a1)" "unlikeVisible a1"
  shows "retryLoop view u 0 acts = (Inr Already, acts)"
  using assms by simp

lemma likedDom_target:
  "findTarget likedDom ''https://x.com/nasa/status/2'' =
     Inr (Some \<lparr>hrefs = [''/nasa'', ''/nasa/status/2''], unlikeVisible = True, clickError = None\<rparr>)"
  by (simp add: likedDom_def findTarget_def tweetLocator_def fallbackLocator_def scenario_ids
      scenario_plain Let_def)

lemma scenario_id99: "statusIdOf ''https://x.com/nasa/status/99'' = Some ''99''"
  by (simp add: statusIdOf_def str_split_def)

lemma scenario_id123: "statusIdOf ''https://x.com/nasa/status/123'' = Some ''123''"
  by (simp add: statusIdOf_def str_split_def)

lemma nth_opt_mem: "nth_opt xs i = Some x \<Longrightarrow> x \<in> set xs"
  by (induction xs i rule: nth_opt.induct) auto

lemma splitAcc_chars: "p \<in> set (splitAcc sep acc s) \<Longrightarrow> set p \<subseteq> set acc \<union> set s"
proof (induction sep acc s rule: splitAcc.induct)
  case (1 sep acc)
  then show ?case by simp
next
  case (2 sep acc c cs)
  show ?case
  proof (cases "sep \<noteq> [] \<and> prefix sep (c # cs)")
    case True
    then have "p = rev acc \<or> p \<in> set (splitAcc sep [] (drop (length sep - 1) cs))"
      using "2.prems" by simp
    then show ?thesis
    proof
      assume "p = rev acc" then show ?thesis by auto
    next
      assume "p \<in> set (splitAcc sep [] (drop (length sep - 1) cs))"
      then have "set p \<subseteq> set [] \<union> set (drop (length sep - 1) cs)"
        using "2.IH"(1) True by blast
      then show ?thesis using set_drop_subset [of "length sep - 1" cs] by auto
    qed
  next
    case False
    then have "p \<in> set (splitAcc sep (c # acc) cs)" using "2.prems" by auto
    then have "set p \<subseteq> set (c # acc) \<union> set cs" using "2.IH"(2) False by blast
    then show ?thesis by auto
  qed
qed

lemma str_split_chars: "p \<in> set (str_split s sep) \<Longrightarrow> set p \<subseteq> set s"
proof (cases "sep = []")
  case True
  assume "p \<in> set (str_split s sep)"
  then show ?thesis using True by (auto simp: str_split_def)
next
  case False
  assume "p \<in> set (str_split s sep)"
  then have "p \<in> set (splitAcc sep [] s)" using False by (simp add: str_split_def)
  then show ?thesis using splitAcc_chars [of p sep "[]" s] by simp
qed

lemma statusIdOf_plain:
  assumes "cssPlain u" "statusIdOf u = Some sid"
  shows "cssPlain sid"
proof -
  obtain rest where r: "nth_opt (str_split u ''/status/'') 1 = Some rest"
    and s: "nth_opt (str_split rest ''?'') 0 = Some sid"
    using assms(2) by (auto simp: statusIdOf_def split: option.splits)
  have "set rest \<subseteq> set u" using nth_opt_mem [OF r] by (rule str_split_chars)
  moreover have "set sid \<subseteq> set rest" using nth_opt_mem [OF s] by (rule str_split_chars)
  ultimately show ?thesis using assms(1) by (auto simp: cssPlain_def list_all_iff)
qed

subsection \<open>Claims about the act loop and the action executor\<close>

text \<open>
  Claim C1. Start the act loop on any scan result with a ledger whose \<open>dayCount\<close> is
  within the daily cap. Then, whatever the page does and however long the loop has
  run (for every amount of fuel, so at every turn of the \<open>while\<close> loop), the ledger's
  \<open>dayCount\<close> is within \<open>DAILY_CAP\<close>, and so is the \<open>dayCount\<close> of every ledger that was
  handed to \<open>saveProcessed\<close>, which happens right after every increment; \<open>dayCount\<close> has
  grown by exactly the number of likes performed (results \<open>{ ok: true }\<close> without
  \<open>already\<close>), and that number is within \<open>TWEETS_TO_LIKE\<close>.
\<close>

theorem quota_invariant:
  assumes "dayCount p \<le> DAILY_CAP cfg"
  shows "dayCount (processed (stateOf (actLoop cfg e fuel (startRun p urls)))) \<le> DAILY_CAP cfg \<and>
         list_all (\<lambda>l. dayCount l \<le> DAILY_CAP cfg)
           (saves (stateOf (actLoop cfg e fuel (startRun p urls)))) \<and>
         dayCount (processed (stateOf (actLoop cfg e fuel (startRun p urls)))) =
           dayCount p + likesPerformed (stateOf (actLoop cfg e fuel (startRun p urls))) \<and>
         likesPerformed (stateOf (actLoop cfg e fuel (startRun p urls))) \<le> TWEETS_TO_LIKE cfg"
proof -
  have "quotaInv cfg p (stateOf (actLoop cfg e fuel (startRun p urls)))"
    using startRun_quota [OF assms] by (rule actLoop_quota)
  then show ?thesis by (simp add: quotaInv_def)
qed

theorem quota_invariant_witness:
  "dayCount scenarioLedger \<le> DAILY_CAP scenarioConfig \<and>
   dayCount (processed (stateOf (actLoop scenarioConfig scenarioEnv 3
     (startRun scenarioLedger scenarioUrls)))) = 3 \<and>
   likesPerformed (stateOf (actLoop scenarioConfig scenarioEnv 3
     (startRun scenarioLedger scenarioUrls))) = 2 \<and>
   dayCount (processed (stateOf (actLoop scenarioConfig scenarioEnv 3
     (startRun scenarioLedger scenarioUrls)))) \<le> DAILY_CAP scenarioConfig \<and>
   list_all (\<lambda>l. dayCount l \<le> DAILY_CAP scenarioConfig)
     (saves (stateOf (actLoop scenarioConfig scenarioEnv 3 (startRun scenarioLedger scenarioUrls)))) \<and>
   likesPerformed (stateOf (actLoop scenarioConfig scenarioEnv 3
     (startRun scenarioLedger scenarioUrls))) \<le> TWEETS_TO_LIKE scenarioConfig"
proof -
  have h: "dayCount scenarioLedger \<le> DAILY_CAP scenarioConfig"
    by (simp add: scenarioLedger_def scenarioConfig_def)
  have l: "likesPerformed (stateOf (actLoop scenarioConfig scenarioEnv 3
     (startRun scenarioLedger scenarioUrls))) = 2"
    by (simp add: likesPerformed_def scenario_run)
  show ?thesis
    using h l scenario_run(2)
      quota_invariant [OF h, of scenarioEnv 3 scenarioUrls]
    by simp
qed

text \<open>
  Claim C4. An identifier the ledger holds when the act loop starts is never passed
  to \<open>likeTweetById\<close>: no call of the run is on a URL whose extracted identifier is that
  one. The second conjunct is the re-check inside the per-item loop: an item whose
  (non-empty) identifier the current ledger holds is skipped without a call.
\<close>

theorem dedup_invariant:
  assumes "liked p k = Some True"
  shows "list_all (\<lambda>(url, outcome). statusIdOf url \<noteq> Some k)
           (invoked (stateOf (actLoop cfg e fuel (startRun p urls)))) \<and>
         (k \<noteq> [] \<and> statusIdOf u = Some k \<and> liked (processed st) k = Some True
            \<longrightarrow> invoked (forItem e u st) = invoked st)"
proof -
  have look: "likedLookup p (Some k)" using assms by (simp add: likedLookup_def)
  have "dedupInv p (stateOf (actLoop cfg e fuel (startRun p urls)))"
    using startRun_dedup by (rule actLoop_dedup)
  then have "list_all (\<lambda>(url, outcome). \<not> likedLookup p (statusIdOf url))
               (invoked (stateOf (actLoop cfg e fuel (startRun p urls))))"
    by (simp add: dedupInv_def)
  then have a: "list_all (\<lambda>(url, outcome). statusIdOf url \<noteq> Some k)
           (invoked (stateOf (actLoop cfg e fuel (startRun p urls))))"
    using look by (auto simp: list_all_iff)
  have b: "k \<noteq> [] \<and> statusIdOf u = Some k \<and> liked (processed st) k = Some True
            \<longrightarrow> invoked (forItem e u st) = invoked st"
    by (auto simp: forItem_def Let_def likedLookup_def)
  from a b show ?thesis by simp
qed

theorem dedup_invariant_witness:
  "liked scenarioLedger ''1'' = Some True \<and>
   map fst (invoked (stateOf (actLoop scenarioConfig scenarioEnv 3
     (startRun scenarioLedger scenarioUrls)))) =
     [''https://x.com/nasa/status/2'', ''https://x.com/nasa/status/3''] \<and>
   list_all (\<lambda>(url, outcome). statusIdOf url \<noteq> Some ''1'')
     (invoked (stateOf (actLoop scenarioConfig scenarioEnv 3
        (startRun scenarioLedger scenarioUrls)))) \<and>
   statusIdOf ''https://x.com/nasa/status/1'' = Some ''1'' \<and>
   invoked (forItem scenarioEnv ''https://x.com/nasa/status/1''
     (startRun scenarioLedger scenarioUrls)) = []"
proof -
  have h: "liked scenarioLedger ''1'' = Some True"
    by (simp add: scenarioLedger_def)
  have s: "liked (processed (startRun scenarioLedger scenarioUrls)) ''1'' = Some True"
    by (simp add: scenarioLedger_def startRun_def)
  have i: "invoked (startRun scenarioLedger scenarioUrls) = []"
    by (simp add: startRun_def)
  show ?thesis
    using h s i scenario_run(1) scenario_ids(1)
      dedup_invariant [OF h, of scenarioConfig scenarioEnv 3 scenarioUrls
        "''https://x.com/nasa/status/1''" "startRun scenarioLedger scenarioUrls"]
    by simp
qed

text \<open>
  Claim C10. For an item that is dispatched, let \<open>outcome\<close> be what \<open>likeTweetById\<close>
  gives. When it is a thrown error or a result with \<open>ok = false\<close>, the ledger, the like
  counter and the list of saves are as before. A result with \<open>ok = true\<close> is followed by
  exactly one save, of the ledger as it then is. \<open>dayCount\<close> grows by one exactly when
  the result has \<open>ok = true\<close> and no \<open>already\<close>, and not otherwise.
\<close>

theorem failure_atomicity:
  assumes "outcome = fst (likeTweetById (views e (length (invoked st))) u)"
    and "\<not> (truthy (statusIdOf u) \<and> likedLookup (processed st) (statusIdOf u))"
  shows "invoked (forItem e u st) = invoked st @ [(u, outcome)] \<and>
         ((\<exists>err. outcome = Inl err) \<or> (\<exists>r. outcome = Inr r \<and> \<not> ok r) \<longrightarrow>
            processed (forItem e u st) = processed st \<and>
            saves (forItem e u st) = saves st \<and>
            likedCount (forItem e u st) = likedCount st) \<and>
         ((\<exists>r. outcome = Inr r \<and> ok r) \<longrightarrow>
            saves (forItem e u st) = saves st @ [processed (forItem e u st)]) \<and>
         dayCount (processed (forItem e u st)) =
           dayCount (processed st) +
             (if \<exists>r. outcome = Inr r \<and> ok r \<and> \<not> already r then 1 else 0)"
proof -
  define st0 where "st0 = st\<lparr>invoked := invoked st @ [(u, outcome)]\<rparr>"
  have fi: "forItem e u st = onOutcome u outcome st0"
    unfolding st0_def assms(1) using assms(2) by (rule forItem_call)
  have i: "invoked (forItem e u st) = invoked st @ [(u, outcome)]"
    unfolding fi by (simp add: onOutcome_invoked st0_def)
  have a: "(\<exists>err. outcome = Inl err) \<or> (\<exists>r. outcome = Inr r \<and> \<not> ok r) \<longrightarrow>
      processed (forItem e u st) = processed st \<and> saves (forItem e u st) = saves st \<and>
      likedCount (forItem e u st) = likedCount st"
    unfolding fi using onOutcome_fail [of outcome u st0] by (auto simp: st0_def)
  have b: "(\<exists>r. outcome = Inr r \<and> ok r) \<longrightarrow>
      saves (forItem e u st) = saves st @ [processed (forItem e u st)]"
    unfolding fi using onOutcome_already [of u st0] onOutcome_liked [of u st0]
    by (cases outcome rule: outcome_cases) (auto simp: st0_def)
  have lk: "(\<exists>r. outcome = Inr r \<and> ok r \<and> \<not> already r) \<longleftrightarrow> outcome = Inr Liked"
  proof (cases outcome)
    case (Inl x) then show ?thesis by simp
  next
    case (Inr r) then show ?thesis by (cases r) auto
  qed
  have c: "dayCount (processed (forItem e u st)) =
     dayCount (processed st) + (if \<exists>r. outcome = Inr r \<and> ok r \<and> \<not> already r then 1 else 0)"
    unfolding lk fi using onOutcome_dayCount [of u outcome st0] by (simp add: st0_def)
  from i a b c show ?thesis by blast
qed

theorem failure_atomicity_witness:
  "fst (likeTweetById (views emptyPageEnv (length (invoked (startRun scenarioLedger scenarioUrls))))
         ''https://x.com/nasa/status/2'') = Inr (Failed ''tweet-not-found'') \<and>
   \<not> likedLookup (processed (startRun scenarioLedger scenarioUrls))
        (statusIdOf ''https://x.com/nasa/status/2'') \<and>
   invoked (forItem emptyPageEnv ''https://x.com/nasa/status/2''
     (startRun scenarioLedger scenarioUrls)) =
     [(''https://x.com/nasa/status/2'', Inr (Failed ''tweet-not-found''))] \<and>
   processed (forItem emptyPageEnv ''https://x.com/nasa/status/2''
     (startRun scenarioLedger scenarioUrls)) = scenarioLedger \<and>
   saves (forItem emptyPageEnv ''https://x.com/nasa/status/2''
     (startRun scenarioLedger scenarioUrls)) = []"
proof -
  have n: "\<not> likedLookup (processed (startRun scenarioLedger scenarioUrls))
        (statusIdOf ''https://x.com/nasa/status/2'')"
    by (simp add: scenario_ids startRun_def scenarioLedger_def likedLookup_def
        objectPrototypeKeys_def)
  then have n': "\<not> (truthy (statusIdOf ''https://x.com/nasa/status/2'') \<and>
     likedLookup (processed (startRun scenarioLedger scenarioUrls))
        (statusIdOf ''https://x.com/nasa/status/2''))" by simp
  show ?thesis
    using n failure_atomicity [OF emptyPage_outcome [symmetric] n']
    by (simp add: emptyPage_outcome0 startRun_def)
qed

text \<open>
  When the article the lookups select carries the \<open>unlike\<close> marker, \<open>likeTweetById\<close>
  returns \<open>{ ok: true, already: true }\<close> without touching the page, and handling that
  result keeps both counters, marks the identifier and is idempotent on the ledger.
\<close>

lemma already_when_located:
  assumes "findTarget (view 0) u = Inr (Some a0)"
    and "findTarget (view (Suc 0)) u = Inr (Some a1)" and "unlikeVisible a1"
  shows "likeTweetById view u = (Inr Already, []) \<and>
         likedCount (onOutcome u (fst (likeTweetById view u)) st) = likedCount st \<and>
         dayCount (processed (onOutcome u (fst (likeTweetById view u)) st)) =
           dayCount (processed st) \<and>
         (truthy (statusIdOf u) \<longrightarrow>
            likedLookup (processed (onOutcome u (fst (likeTweetById view u)) st)) (statusIdOf u)) \<and>
         processed (onOutcome u (fst (likeTweetById view u))
                      (onOutcome u (fst (likeTweetById view u)) st)) =
           processed (onOutcome u (fst (likeTweetById view u)) st)"
proof -
  have r: "likeTweetById view u = (Inr Already, [])"
    using assms(1) retryLoop_already [of view u a1 "[]"] assms(2,3)
    by (simp add: likeTweetById_def)
  let ?st' = "onOutcome u (Inr Already) st"
  have c: "likedCount ?st' = likedCount st" "dayCount (processed ?st') = dayCount (processed st)"
    using onOutcome_dayCount [of u "Inr Already" st] by simp_all
  have l: "truthy (statusIdOf u) \<longrightarrow> likedLookup (processed ?st') (statusIdOf u)"
    using onOutcome_already [of u st]
    by (auto split: option.splits intro: likedLookup_markLiked_self)
  have i: "processed (onOutcome u (Inr Already) ?st') = processed ?st'"
    using onOutcome_already [of u st] onOutcome_already [of u ?st']
    by (auto split: option.splits simp: markLiked_idem)
  from r c l i show ?thesis by simp
qed

lemma already_when_located_example:
  "likeTweetById (\<lambda>k. likedDom) ''https://x.com/nasa/status/2'' = (Inr Already, [])"
  by (simp add: likeTweetById_def likedDom_target)

lemma prefixDom_run:
  "likeTweetById (\<lambda>k. prefixDom) ''https://x.com/nasa/status/2'' =
     (Inr Liked, [ScrollIntoView, Hover, WaitLikeVisible, TrialClick, Click, WaitUnlike])"
  by (simp add: likeTweetById_def findTarget_def tweetLocator_def fallbackLocator_def
      prefixDom_def scenario_ids scenario_plain Let_def)

lemma linkingDom_run:
  "likeTweetById (\<lambda>k. linkingDom) ''https://x.com/nasa/status/2'' =
     (Inr Liked, [ScrollIntoView, Hover, WaitLikeVisible, TrialClick, Click, WaitUnlike])"
  by (simp add: likeTweetById_def findTarget_def tweetLocator_def fallbackLocator_def
      linkingDom_def scenario_ids scenario_plain Let_def)

text \<open>
  Claim C3. On a page that shows the tweet with identifier \<open>2\<close>, already liked, after the
  tweet with identifier \<open>25\<close>, not liked, \<open>likeTweetById\<close> called for the permalink of
  tweet \<open>2\<close> does not return \<open>{ ok: true, already: true }\<close>: no link equals the permalink,
  the fallback selector asks for a link that contains \<open>/status/2\<close>, the link
  \<open>/nasa/status/25\<close> of the first article does, and so the like button of tweet \<open>25\<close> is
  clicked and \<open>{ ok: true }\<close> comes back. Handling that result raises \<open>likedCount\<close> and
  \<open>dayCount\<close> and marks identifier \<open>2\<close>. The same happens when an earlier article only
  links to the target.
\<close>

theorem likeTweetById_prefix_collision:
  "\<lparr>hrefs = [''/nasa'', ''/nasa/status/2''], unlikeVisible = True, clickError = None\<rparr>
     \<in> set (articles prefixDom) \<and>
   likeTweetById (\<lambda>k. prefixDom) ''https://x.com/nasa/status/2'' =
     (Inr Liked, [ScrollIntoView, Hover, WaitLikeVisible, TrialClick, Click, WaitUnlike]) \<and>
   likedCount (onOutcome ''https://x.com/nasa/status/2''
     (fst (likeTweetById (\<lambda>k. prefixDom) ''https://x.com/nasa/status/2''))
     (startRun scenarioLedger scenarioUrls)) = 1 \<and>
   dayCount (processed (onOutcome ''https://x.com/nasa/status/2''
     (fst (likeTweetById (\<lambda>k. prefixDom) ''https://x.com/nasa/status/2''))
     (startRun scenarioLedger scenarioUrls))) = 2 \<and>
   dayCount (processed (startRun scenarioLedger scenarioUrls)) = 1 \<and>
   \<lparr>hrefs = [''/nasa'', ''/nasa/status/2''], unlikeVisible = True, clickError = None\<rparr>
     \<in> set (articles linkingDom) \<and>
   likeTweetById (\<lambda>k. linkingDom) ''https://x.com/nasa/status/2'' =
     (Inr Liked, [ScrollIntoView, Hover, WaitLikeVisible, TrialClick, Click, WaitUnlike])"
  using onOutcome_dayCount [of "''https://x.com/nasa/status/2''" "Inr Liked"
      "startRun scenarioLedger scenarioUrls"]
  by (simp add: prefixDom_run linkingDom_run)
    (simp add: prefixDom_def linkingDom_def startRun_def scenarioLedger_def)

text \<open>
  Claim C5, as amended. Let the status URL be free of the characters that are special
  inside a quoted CSS string. When no article of the page has a link equal to the URL,
  and none has a link that contains \<open>/status/\<close> followed by its identifier,
  \<open>likeTweetById\<close> returns a result, not an error, with \<open>ok = false\<close> and the reason
  \<open>tweet-not-found\<close>, and has not touched the page.
\<close>

theorem likeTweetById_not_found:
  assumes "cssPlain u"
    and "list_all (\<lambda>a. u \<notin> set (hrefs a)) (articles (view 0))"
    and "\<forall>sid. statusIdOf u = Some sid \<longrightarrow>
           list_all (\<lambda>a. \<not> list_ex (\<lambda>h. str_includes h (''/status/'' @ sid)) (hrefs a))
             (articles (view 0))"
  shows "likeTweetById view u = (Inr (Failed ''tweet-not-found''), []) \<and>
         \<not> ok (Failed ''tweet-not-found'') \<and>
         reason (Failed ''tweet-not-found'') = Some ''tweet-not-found''"
proof -
  have t: "tweetLocator (view 0) u = Inr []"
    using assms(1,2) by (simp add: tweetLocator_def list_all_iff filter_empty_conv)
  have f: "fallbackLocator (view 0) sid = Inr []" if "statusIdOf u = Some sid" for sid
    using assms(3) that statusIdOf_plain [OF assms(1) that]
    by (simp add: fallbackLocator_def list_all_iff filter_empty_conv)
  have "findTarget (view 0) u = Inr None"
  proof (cases "statusIdOf u")
    case None
    then show ?thesis using t by (simp add: findTarget_def Let_def)
  next
    case (Some sid)
    then show ?thesis using t f [OF Some] by (simp add: findTarget_def Let_def)
  qed
  then show ?thesis by (simp add: likeTweetById_def)
qed

theorem likeTweetById_not_found_witness:
  "cssPlain ''https://x.com/nasa/status/99'' \<and>
   list_all (\<lambda>a. ''https://x.com/nasa/status/99'' \<notin> set (hrefs a)) (articles scenarioDom) \<and>
   statusIdOf ''https://x.com/nasa/status/99'' = Some ''99'' \<and>
   list_all (\<lambda>a. \<not> list_ex (\<lambda>h. str_includes h (''/status/'' @ ''99'')) (hrefs a))
     (articles scenarioDom) \<and>
   likeTweetById (\<lambda>k. scenarioDom) ''https://x.com/nasa/status/99'' =
     (Inr (Failed ''tweet-not-found''), [])"
  using likeTweetById_not_found [of "''https://x.com/nasa/status/99''" "\<lambda>k. scenarioDom"]
  by (simp add: scenario_plain scenario_id99 scenarioDom_def)

text \<open>
  Claim C5 as stated names the reason \<open>not-found\<close>; on a page without any article the
  reason returned is another string. And for a status URL that ends in a double quote
  the selector does not parse: on the same page the first \<open>count()\<close> throws and no
  result is returned at all.
\<close>

theorem likeTweetById_reason_counterexample:
  "articles emptyDom = [] \<and>
   fst (likeTweetById (\<lambda>k. emptyDom) ''https://x.com/nasa/status/123'') =
     Inr (Failed ''tweet-not-found'') \<and>
   reason (Failed ''tweet-not-found'') \<noteq> Some ''not-found'' \<and>
   fst (likeTweetById (\<lambda>k. emptyDom) (''https://x.com/nasa/status/123'' @ [CHR 0x22])) =
     Inl (Error ''Unexpected token while parsing selector'')"
  by (simp add: likeTweetById_def findTarget_def tweetLocator_def fallbackLocator_def
      emptyDom_def rejectingEngine_def scenario_id123 scenario_plain cssPlain_def cssSpecial_def
      Let_def)

subsection \<open>Content discovery\<close>

declare collectLoop.simps [simp del]

lemma setAdd_length: "length xs < m \<Longrightarrow> length (setAdd x xs) \<le> m"
  by (simp add: setAdd_def)

lemma setAdd_distinct: "distinct xs \<Longrightarrow> distinct (setAdd x xs)"
  by (simp add: setAdd_def)

lemma scanElements_bound:
  "length urls \<le> maxScan \<Longrightarrow> distinct urls \<Longrightarrow>
     length (scanElements maxScan urls es) \<le> maxScan \<and> distinct (scanElements maxScan urls es)"
proof (induction es arbitrary: urls)
  case Nil then show ?case by simp
next
  case (Cons x es)
  show ?case
  proof (cases "length urls \<ge> maxScan")
    case True then show ?thesis using Cons.prems by simp
  next
    case False
    let ?urls' = "case x of None \<Rightarrow> urls | Some u \<Rightarrow> if truthy x then setAdd u urls else urls"
    have "length ?urls' \<le> maxScan" "distinct ?urls'"
      using False Cons.prems
      by (auto split: option.splits simp: setAdd_distinct setAdd_length)
    then have "length (scanElements maxScan ?urls' es) \<le> maxScan \<and> distinct (scanElements maxScan ?urls' es)"
      by (rule Cons.IH)
    then show ?thesis using False by simp
  qed
qed

lemma scanSelectors_bound:
  "length urls \<le> maxScan \<Longrightarrow> distinct urls \<Longrightarrow>
     length (scanSelectors maxScan found urls ss) \<le> maxScan \<and>
     distinct (scanSelectors maxScan found urls ss)"
proof (induction ss arbitrary: urls)
  case Nil then show ?case by simp
next
  case (Cons s ss)
  then show ?case using scanElements_bound [of urls maxScan "found s"] by simp
qed

lemma scanStep_fields:
  "lastHeight (scanStep maxScan found h s) = h"
  "noChangeCount (scanStep maxScan found h s) = (if h = lastHeight s then noChangeCount s + 1 else 0)"
  "tweetUrlSet (scanStep maxScan found h s) = scanSelectors maxScan found (tweetUrlSet s) tweetSelectors"
  by (simp_all add: scanStep_def Let_def)

lemma scanStep_inv:
  "scanInv maxScan s \<Longrightarrow> noChangeCount s < MAX_NO_CHANGE \<Longrightarrow> scanInv maxScan (scanStep maxScan found h s)"
  using scanSelectors_bound [of "tweetUrlSet s" maxScan found tweetSelectors]
  by (simp add: scanInv_def scanStep_fields)

lemma collectLoop_stop:
  "\<not> (length (tweetUrlSet s) < maxScan \<and> noChangeCount s < MAX_NO_CHANGE) \<Longrightarrow>
     collectLoop maxScan s n frs = Some (Inr s, n)"
  by (subst collectLoop.simps) auto

lemma collectLoop_step:
  "length (tweetUrlSet s) < maxScan \<and> noChangeCount s < MAX_NO_CHANGE \<Longrightarrow>
     collectLoop maxScan s n (Frame found h # frs) =
       collectLoop maxScan (scanStep maxScan found h s) (Suc n) frs"
  by (subst collectLoop.simps) simp

lemma collectLoop_broken:
  "length (tweetUrlSet s) < maxScan \<and> noChangeCount s < MAX_NO_CHANGE \<Longrightarrow>
     collectLoop maxScan s n (Broken e # frs) = Some (Inl e, n)"
  by (subst collectLoop.simps) simp

lemma collectLoop_empty:
  "length (tweetUrlSet s) < maxScan \<and> noChangeCount s < MAX_NO_CHANGE \<Longrightarrow>
     collectLoop maxScan s n [] = None"
  by (subst collectLoop.simps) simp

lemma collectLoop_exit:
  "scanInv maxScan s \<Longrightarrow> collectLoop maxScan s n frs = Some (Inr s', k) \<Longrightarrow>
     scanInv maxScan s' \<and>
     (length (tweetUrlSet s') = maxScan \<or> noChangeCount s' = MAX_NO_CHANGE)"
proof (induction frs arbitrary: s n)
  case Nil
  show ?case
  proof (cases "length (tweetUrlSet s) < maxScan \<and> noChangeCount s < MAX_NO_CHANGE")
    case True then show ?thesis using Nil by (simp add: collectLoop_empty)
  next
    case False
    then have "s' = s" using Nil by (simp add: collectLoop_stop)
    then show ?thesis using False Nil(1) by (auto simp: scanInv_def)
  qed
next
  case (Cons fr frs)
  show ?case
  proof (cases "length (tweetUrlSet s) < maxScan \<and> noChangeCount s < MAX_NO_CHANGE")
    case False
    then have "s' = s" using Cons.prems by (simp add: collectLoop_stop)
    then show ?thesis using False Cons.prems(1) by (auto simp: scanInv_def)
  next
    case True
    show ?thesis
    proof (cases fr)
      case (Broken e)
      then show ?thesis using True Cons.prems by (simp add: collectLoop_broken)
    next
      case (Frame found h)
      have "scanInv maxScan (scanStep maxScan found h s)"
        using Cons.prems(1) True by (simp add: scanStep_inv)
      moreover have "collectLoop maxScan (scanStep maxScan found h s) (Suc n) frs = Some (Inr s', k)"
        using Cons.prems(2) True Frame by (simp add: collectLoop_step)
      ultimately show ?thesis by (rule Cons.IH)
    qed
  qed
qed

lemma collectLoop_quiet:
  "lastHeight s = h \<Longrightarrow> MAX_NO_CHANGE \<le> noChangeCount s + length fs \<Longrightarrow>
     \<exists>r k. k \<le> length fs \<and>
       collectLoop maxScan s n (map (\<lambda>found. Frame found h) fs @ rest) = Some (r, n + k)"
proof (induction fs arbitrary: s n)
  case Nil
  then have "\<not> (length (tweetUrlSet s) < maxScan \<and> noChangeCount s < MAX_NO_CHANGE)" by simp
  then show ?case by (simp add: collectLoop_stop)
next
  case (Cons f fs)
  show ?case
  proof (cases "length (tweetUrlSet s) < maxScan \<and> noChangeCount s < MAX_NO_CHANGE")
    case False
    then show ?thesis by (simp add: collectLoop_stop)
  next
    case True
    let ?s1 = "scanStep maxScan f h s"
    have "lastHeight ?s1 = h" "MAX_NO_CHANGE \<le> noChangeCount ?s1 + length fs"
      using Cons.prems by (simp_all add: scanStep_fields)
    then obtain r k where "k \<le> length fs"
      "collectLoop maxScan ?s1 (Suc n) (map (\<lambda>found. Frame found h) fs @ rest) = Some (r, Suc n + k)"
      using Cons.IH by blast
    then show ?thesis using True
      by (intro exI [of _ r] exI [of _ "Suc k"]) (simp add: collectLoop_step)
  qed
qed

lemma collectLoop_prefix:
  "lastMeasured (lastHeight s) pre = h \<Longrightarrow>
     \<exists>r k. k \<le> length pre + 3 \<and>
       collectLoop maxScan s n (pre @ Frame f1 h # Frame f2 h # Frame f3 h # rest) = Some (r, n + k)"
proof (induction pre arbitrary: s n)
  case Nil
  then have "lastHeight s = h" by simp
  then show ?case
    using collectLoop_quiet [of s h "[f1, f2, f3]" maxScan n rest]
    by (simp add: MAX_NO_CHANGE_def numeral_3_eq_3)
next
  case (Cons fr pre)
  show ?case
  proof (cases "length (tweetUrlSet s) < maxScan \<and> noChangeCount s < MAX_NO_CHANGE")
    case False
    then show ?thesis by (simp add: collectLoop_stop)
  next
    case True
    show ?thesis
    proof (cases fr)
      case (Broken e)
      then show ?thesis using True by (simp add: collectLoop_broken)
    next
      case (Frame found h')
      let ?s1 = "scanStep maxScan found h' s"
      have "lastMeasured (lastHeight ?s1) pre = h"
        using Cons.prems Frame by (simp add: scanStep_fields)
      then obtain r k where "k \<le> length pre + 3"
        "collectLoop maxScan ?s1 (Suc n) (pre @ Frame f1 h # Frame f2 h # Frame f3 h # rest) = Some (r, Suc n + k)"
        using Cons.IH by blast
      then show ?thesis using True Frame
        by (intro exI [of _ r] exI [of _ "Suc k"]) (simp add: collectLoop_step)
    qed
  qed
qed

lemma initialScan_inv: "scanInv maxScan initialScan"
  by (simp add: scanInv_def initialScan_def)

lemma quietFrames_shape:
  "quietFrames =
     [Frame (\<lambda>s. [Some ''https://x.com/nasa/status/1'', None]) 900,
      Frame (\<lambda>s. [Some ''https://x.com/nasa/status/1'', Some ''https://x.com/nasa/status/2'']) 1400]
     @ Frame (\<lambda>s. []) 1400 # Frame (\<lambda>s. []) 1400 # Frame (\<lambda>s. []) 1400
     # [Frame (\<lambda>s. [Some ''https://x.com/nasa/status/3'']) 2000]"
  by (simp add: quietFrames_def)

lemma quietFrames_run:
  "collectLoop 5 initialScan 0 quietFrames =
     Some (Inr \<lparr>tweetUrlSet = [''https://x.com/nasa/status/1'', ''https://x.com/nasa/status/2''],
                lastHeight = 1400, noChangeCount = 3\<rparr>, 5)"
  by (simp add: quietFrames_def collectLoop.simps initialScan_def scanStep_def tweetSelectors_def
      setAdd_def MAX_NO_CHANGE_def Let_def)

text \<open>
  Claim C8. Three scroll steps in a row that leave the measured height as it was end the
  scan: whatever came before (\<open>pre\<close>) and whatever would come after (\<open>rest\<close>), the loop
  has stopped after at most \<open>length pre + 3\<close> iterations, whether or not the ceiling was
  reached. When the loop leaves normally, the set holds at most \<open>maxScan\<close> URLs, and either
  it holds exactly \<open>maxScan\<close> or the height has been unchanged for \<open>MAX_NO_CHANGE = 3\<close>
  iterations in a row. In a state where one of the two holds the loop runs no further
  iteration. The array returned has at most \<open>maxScan\<close> elements, all different.
\<close>

theorem scan_termination:
  assumes "lastMeasured 0 pre = h"
  shows "(\<exists>r k. k \<le> length pre + 3 \<and>
            collectLoop maxScan initialScan 0 (pre @ Frame f1 h # Frame f2 h # Frame f3 h # rest)
              = Some (r, k)) \<and>
         (\<forall>s k. collectLoop maxScan initialScan 0 frs = Some (Inr s, k) \<longrightarrow>
            length (tweetUrlSet s) \<le> maxScan \<and>
            (length (tweetUrlSet s) = maxScan \<or> noChangeCount s = MAX_NO_CHANGE)) \<and>
         (\<not> (length (tweetUrlSet st) < maxScan \<and> noChangeCount st < MAX_NO_CHANGE) \<longrightarrow>
            collectLoop maxScan st n frs = Some (Inr st, n)) \<and>
         (\<forall>urls. collectTweetIds maxScan frs = Some (Inr urls) \<longrightarrow>
            length urls \<le> maxScan \<and> distinct urls)"
proof -
  have a: "\<exists>r k. k \<le> length pre + 3 \<and>
            collectLoop maxScan initialScan 0 (pre @ Frame f1 h # Frame f2 h # Frame f3 h # rest)
              = Some (r, k)"
    using collectLoop_prefix [of initialScan pre h maxScan 0 f1 f2 f3 rest] assms
    by (simp add: initialScan_def)
  have b: "\<forall>s k. collectLoop maxScan initialScan 0 frs = Some (Inr s, k) \<longrightarrow>
            scanInv maxScan s \<and>
            (length (tweetUrlSet s) = maxScan \<or> noChangeCount s = MAX_NO_CHANGE)"
    using collectLoop_exit [OF initialScan_inv] by blast
  have c: "\<not> (length (tweetUrlSet st) < maxScan \<and> noChangeCount st < MAX_NO_CHANGE) \<longrightarrow>
            collectLoop maxScan st n frs = Some (Inr st, n)"
    using collectLoop_stop by blast
  have d: "\<forall>urls. collectTweetIds maxScan frs = Some (Inr urls) \<longrightarrow>
            length urls \<le> maxScan \<and> distinct urls"
    using b by (auto simp: collectTweetIds_def scanInv_def split: option.splits sum.splits prod.splits)
  from a b c d show ?thesis by (simp add: scanInv_def)
qed

theorem scan_termination_witness:
  "lastMeasured 0
     [Frame (\<lambda>s. [Some ''https://x.com/nasa/status/1'', None]) 900,
      Frame (\<lambda>s. [Some ''https://x.com/nasa/status/1'', Some ''https://x.com/nasa/status/2'']) 1400]
     = 1400 \<and>
   collectLoop 5 initialScan 0 quietFrames =
     Some (Inr \<lparr>tweetUrlSet = [''https://x.com/nasa/status/1'', ''https://x.com/nasa/status/2''],
                lastHeight = 1400, noChangeCount = 3\<rparr>, 5) \<and>
   collectTweetIds 5 quietFrames =
     Some (Inr [''https://x.com/nasa/status/1'', ''https://x.com/nasa/status/2'']) \<and>
   (\<exists>r k. k \<le> 5 \<and> collectLoop 5 initialScan 0 quietFrames = Some (r, k))"
proof -
  have h: "lastMeasured 0
     [Frame (\<lambda>s. [Some ''https://x.com/nasa/status/1'', None]) 900,
      Frame (\<lambda>s. [Some ''https://x.com/nasa/status/1'', Some ''https://x.com/nasa/status/2'']) 1400]
     = 1400" by simp
  note th = scan_termination [OF h, of 5 "\<lambda>s. []" "\<lambda>s. []" "\<lambda>s. []"
      "[Frame (\<lambda>s. [Some ''https://x.com/nasa/status/3'']) 2000]" quietFrames initialScan 0]
  have c: "collectTweetIds 5 quietFrames =
     Some (Inr [''https://x.com/nasa/status/1'', ''https://x.com/nasa/status/2''])"
    by (simp add: collectTweetIds_def quietFrames_run)
  have e: "\<exists>r k. k \<le> 5 \<and> collectLoop 5 initialScan 0 quietFrames = Some (r, k)"
    using th unfolding quietFrames_shape [symmetric] by simp
  from h c e quietFrames_run show ?thesis by simp
qed

end
